theory Spec2Isabelle
  imports Main
begin

section \<open>Azure snapshot manager (src/prod/main.py): the batch orchestration engine\<close>

text \<open>
  A shallow embedding of the parts of \<^verbatim>\<open>src/prod/main.py\<close> that run the batches: the two
  command executors, the per-item workers, the two thread-pool dispatchers, the
  aggregate they fill, the lock guard and the delete pipeline.

  Conventions of the embedding.
  \<^item> Python \<^verbatim>\<open>str\<close> is \<^typ>\<open>string\<close>; Python \<^verbatim>\<open>int\<close> is \<^typ>\<open>int\<close>; attempt counters and
    delays are \<^typ>\<open>nat\<close>.
  \<^item> A function that may raise returns \<open>exn + 'a\<close> (\<open>Inl\<close> the exception); every
    \<^verbatim>\<open>try\<close>/\<^verbatim>\<open>except\<close> of the source is a case distinction on that sum.
  \<^item> The outside world (the \<^verbatim>\<open>az\<close> tool) is the field \<open>sh\<close> of an environment: it
    maps the history of the run so far and a command to the outcome of the
    command. Every effect the source has on the world is appended to the history,
    so the history is the state that is passed along.
  \<^item> Console output, \<^verbatim>\<open>logging.*\<close> calls and the progress bar do not influence any
    value and are left out; \<^verbatim>\<open>write_detailed_log\<close>, \<^verbatim>\<open>write_snapshot_rid\<close> and
    \<^verbatim>\<open>asyncio.sleep\<close> are events of the history.
\<close>

subsection \<open>Strings\<close>

text \<open>\<^verbatim>\<open>s.startswith(p)\<close>.\<close>

definition startswith :: "string \<Rightarrow> string \<Rightarrow> bool" where
  "startswith p s = (take (length p) s = p)"

text \<open>\<^verbatim>\<open>s.split(c)\<close> for a one-character separator: never empty, keeps empty fields.\<close>

fun split_on :: "char \<Rightarrow> string \<Rightarrow> string list" where
  "split_on c [] = [[]]"
| "split_on c (x # xs) =
     (if x = c then [] # split_on c xs
      else (case split_on c xs of
              [] \<Rightarrow> [[x]]
            | p # ps \<Rightarrow> (x # p) # ps))"

text \<open>
  The characters \<^verbatim>\<open>str.strip()\<close> and \<^verbatim>\<open>str.split()\<close> treat as white space, among the
  one-byte characters: tab, line feed, vertical tab, form feed, carriage return,
  the separators 28 to 31, space, NEL (133) and the no-break space (160).
\<close>

definition is_space :: "char \<Rightarrow> bool" where
  "is_space c =
     (let n = of_char c :: nat
      in (9 \<le> n \<and> n \<le> 13) \<or> (28 \<le> n \<and> n \<le> 32) \<or> n = 133 \<or> n = 160)"

definition strip :: "string \<Rightarrow> string" where
  "strip s = rev (dropWhile is_space (rev (dropWhile is_space s)))"



text \<open>\<^verbatim>\<open>str(n)\<close> for an integer.\<close>

definition digit_char :: "nat \<Rightarrow> char" where
  "digit_char n = char_of (48 + n mod 10)"

function show_nat :: "nat \<Rightarrow> string" where
  "show_nat n = (if n < 10 then [digit_char n] else show_nat (n div 10) @ [digit_char n])"
  by pat_completeness auto
termination
  by (relation "measure (\<lambda>n. n)") auto

definition show_int :: "int \<Rightarrow> string" where
  "show_int i = (if i < 0 then CHR ''-'' # show_nat (nat (- i)) else show_nat (nat i))"

subsection \<open>Exceptions, JSON values, commands and the history\<close>

text \<open>
  An exception is its class and its text \<^verbatim>\<open>str(e)\<close>. The classes are the ones the
  source's \<^verbatim>\<open>except\<close> clauses tell apart, and \<open>OtherException\<close> for the rest of
  \<^verbatim>\<open>Exception\<close>.
\<close>

datatype exn_kind =
  CalledProcessError | IndexError | KeyError | TypeError | AttributeError
  | JSONDecodeError | ValueError | UnboundLocalError | OtherException

datatype exn = Exn exn_kind string

fun exn_class :: "exn \<Rightarrow> exn_kind" where
  "exn_class (Exn k t) = k"

fun exn_str :: "exn \<Rightarrow> string" where
  "exn_str (Exn k t) = t"

text \<open>
  What \<^verbatim>\<open>json.loads\<close> returns. Numbers are integers here (a float never decides
  anything in the modelled code); an object keeps its members in order.
\<close>

datatype json =
  JNull | JBool bool | JInt int | JStr string | JArr "json list" | JObj "(string \<times> json) list"

text \<open>
  A command is a shell line (\<^verbatim>\<open>shell=True\<close>) or an argument vector. A started process
  ends with its decoded output and its return code; \<open>Fault\<close> is an exception raised
  while the process was started or awaited.
\<close>

datatype command = Shell string | Argv "string list"

record proc =
  stdout :: string
  stderr :: string
  returncode :: int

datatype sh_out = Exited proc | Fault exn

datatype event =
  Ran command sh_out
  | Slept nat
  | Logged string
  | RidWritten string

type_synonym history = "event list"

text \<open>
  The environment of a run: the command tool; the \<^verbatim>\<open>json\<close> module (\<open>Inl\<close> the text of
  the \<^verbatim>\<open>JSONDecodeError\<close>); \<^verbatim>\<open>str()\<close> of a JSON value, as an f-string formats it; the
  order in which \<^verbatim>\<open>as_completed\<close> hands over the futures of the submitted
  identifiers; and the order in which a \<^verbatim>\<open>set\<close> of scope keys is iterated.
\<close>

record env =
  sh :: "history \<Rightarrow> command \<Rightarrow> sh_out"
  json_loads :: "string \<Rightarrow> string + json"
  json_dumps :: "json \<Rightarrow> string"
  py_str :: "json \<Rightarrow> string"
  as_completed :: "string list \<Rightarrow> string list"
  set_iter :: "(string \<times> string) list \<Rightarrow> (string \<times> string) list"

subsection \<open>Command executor\<close>

text \<open>
  \<^verbatim>\<open>run_az_command\<close> (lines 67-83). An argument vector runs with \<^verbatim>\<open>check=True\<close>: a
  non-zero return code raises \<^verbatim>\<open>CalledProcessError\<close>, which the function re-raises.
  A shell line that exits non-zero gives the text \<^verbatim>\<open>"Error: " + stderr\<close>. Any other
  exception becomes the text \<^verbatim>\<open>"Error: " + str(e)\<close>. \<open>called_process_error\<close> carries
  the text of the exception for an exit status; no result of the program reads it.
\<close>

definition called_process_error :: "env \<Rightarrow> string list \<Rightarrow> int \<Rightarrow> exn" where
  "called_process_error E args rc =
     Exn CalledProcessError
       (''Command '' @ [CHR 0x27] @ py_str E (JArr (map JStr args)) @ [CHR 0x27]
          @ '' returned non-zero exit status '' @ show_int rc @ ''.'')"

definition az_result :: "env \<Rightarrow> command \<Rightarrow> sh_out \<Rightarrow> exn + string" where
  "az_result E cmd out =
     (case out of
        Fault e \<Rightarrow>
          (if exn_class e = CalledProcessError then Inl e
           else Inr (''Error: '' @ exn_str e))
      | Exited p \<Rightarrow>
          (case cmd of
             Argv args \<Rightarrow>
               (if returncode p \<noteq> 0 then Inl (called_process_error E args (returncode p))
                else Inr (strip (stdout p)))
           | Shell line \<Rightarrow>
               (if returncode p \<noteq> 0 then Inr (''Error: '' @ strip (stderr p))
                else Inr (strip (stdout p)))))"

definition run_az_command :: "env \<Rightarrow> command \<Rightarrow> history \<Rightarrow> (exn + string) \<times> history" where
  "run_az_command E cmd h =
     (let out = sh E h cmd in (az_result E cmd out, h @ [Ran cmd out]))"

text \<open>
  \<^verbatim>\<open>run_az_command_async\<close> (lines 49-65). \<open>attempt\<close> is the loop variable of
  \<^verbatim>\<open>for attempt in range(max_retries)\<close>; \<open>prev\<close> is the process of the latest attempt
  (the variables \<^verbatim>\<open>stderr\<close> and \<^verbatim>\<open>process\<close> after the loop, unbound when the loop
  never ran). An exception of \<^verbatim>\<open>create_subprocess_shell\<close> or \<^verbatim>\<open>communicate\<close> is not
  caught.
\<close>

definition unbound_stderr :: exn where
  "unbound_stderr =
     Exn UnboundLocalError
       ''cannot access local variable 'stderr' where it is not associated with a value''"

definition after_loop :: "proc option \<Rightarrow> exn + string \<times> string \<times> int" where
  "after_loop prev =
     (case prev of
        None \<Rightarrow> Inl unbound_stderr
      | Some p \<Rightarrow> Inr ('''', strip (stderr p), returncode p))"

function async_attempts ::
  "env \<Rightarrow> string \<Rightarrow> nat \<Rightarrow> nat \<Rightarrow> nat \<Rightarrow> proc option \<Rightarrow> history
     \<Rightarrow> (exn + string \<times> string \<times> int) \<times> history" where
  "async_attempts E command max_retries delay attempt prev h =
     (if attempt < max_retries then
        (case sh E h (Shell command) of
           Fault e \<Rightarrow> (Inl e, h @ [Ran (Shell command) (Fault e)])
         | Exited p \<Rightarrow>
             (let h1 = h @ [Ran (Shell command) (Exited p)] in
              if returncode p = 0
              then (Inr (strip (stdout p), strip (stderr p), returncode p), h1)
              else
                (let h2 = h1 @ [Logged (''Command failed (attempt '' @ show_nat (attempt + 1)
                                          @ ''): '' @ command),
                                Logged (''Error: '' @ strip (stderr p))];
                     h3 = (if attempt < max_retries - 1
                           then h2 @ [Logged (''Retrying in '' @ show_nat delay @ '' seconds...''),
                                      Slept delay]
                           else h2)
                 in async_attempts E command max_retries delay (Suc attempt) (Some p) h3)))
      else (after_loop prev, h))"
  by pat_completeness auto
termination
  by (relation "measure (\<lambda>(E, command, max_retries, delay, attempt, prev, h). max_retries - attempt)")
     auto

definition run_az_command_async ::
  "env \<Rightarrow> string \<Rightarrow> nat \<Rightarrow> nat \<Rightarrow> history \<Rightarrow> (exn + string \<times> string \<times> int) \<times> history" where
  "run_az_command_async E command max_retries delay h =
     async_attempts E command max_retries delay 0 None h"

text \<open>The defaults of the signature: \<^verbatim>\<open>max_retries=3, delay=5\<close>.\<close>

definition default_max_retries :: nat where
  "default_max_retries = 3"

definition default_delay :: nat where
  "default_delay = 5"

definition run_az_command_async_default ::
  "env \<Rightarrow> string \<Rightarrow> history \<Rightarrow> (exn + string \<times> string \<times> int) \<times> history" where
  "run_az_command_async_default E command h =
     run_az_command_async E command default_max_retries default_delay h"

text \<open>Reading a history: the outcomes of the commands run, and the delays slept.\<close>

fun ran_cmds :: "history \<Rightarrow> command list" where
  "ran_cmds [] = []"
| "ran_cmds (Ran c out # es) = c # ran_cmds es"
| "ran_cmds (e # es) = ran_cmds es"

fun ran_outs :: "history \<Rightarrow> sh_out list" where
  "ran_outs [] = []"
| "ran_outs (Ran c out # es) = out # ran_outs es"
| "ran_outs (e # es) = ran_outs es"

fun sleeps :: "history \<Rightarrow> nat list" where
  "sleeps [] = []"
| "sleeps (Slept d # es) = d # sleeps es"
| "sleeps (e # es) = sleeps es"

fun failed_exit :: "sh_out \<Rightarrow> bool" where
  "failed_exit (Exited p) = (returncode p \<noteq> 0)"
| "failed_exit (Fault e) = False"

text \<open>
  \<open>consistent E h new\<close>: the events \<open>new\<close>, appended to the history \<open>h\<close>, record for every
  command the outcome the tool gave at that point of the run.
\<close>

fun consistent :: "env \<Rightarrow> history \<Rightarrow> history \<Rightarrow> bool" where
  "consistent E h [] = True"
| "consistent E h (Ran c out # es) = (out = sh E h c \<and> consistent E (h @ [Ran c out]) es)"
| "consistent E h (e # es) = consistent E (h @ [e]) es"

subsection \<open>The aggregate\<close>

text \<open>
  A payload of a bucket is a snapshot name, or a pair of a name or identifier and
  an error text. The aggregate is \<^verbatim>\<open>defaultdict(lambda: defaultdict(list))\<close>; both
  levels are association lists in insertion order with one entry per key, as a
  Python \<^verbatim>\<open>dict\<close> is.
\<close>

datatype payload = Name string | Detail string string

type_synonym buckets = "(string \<times> payload list) list"

type_synonym aggregate = "(string \<times> buckets) list"

text \<open>\<^verbatim>\<open>d[k] = v\<close>: replaces the value of a key in place, or appends a new key.\<close>

fun dict_set :: "'k \<Rightarrow> 'v \<Rightarrow> ('k \<times> 'v) list \<Rightarrow> ('k \<times> 'v) list" where
  "dict_set k v [] = [(k, v)]"
| "dict_set k v ((k', v') # d) =
     (if k' = k then (k, v) # d else (k', v') # dict_set k v d)"

text \<open>Reading a \<^verbatim>\<open>defaultdict\<close>: a missing key reads as the empty default.\<close>

definition inner_of :: "aggregate \<Rightarrow> string \<Rightarrow> buckets" where
  "inner_of results key = (case map_of results key of None \<Rightarrow> [] | Some d \<Rightarrow> d)"

definition bucket_of :: "buckets \<Rightarrow> string \<Rightarrow> payload list" where
  "bucket_of data status = (case map_of data status of None \<Rightarrow> [] | Some b \<Rightarrow> b)"

text \<open>\<^verbatim>\<open>results[key][status].append(data)\<close>.\<close>

definition append_result :: "string \<Rightarrow> string \<Rightarrow> payload \<Rightarrow> aggregate \<Rightarrow> aggregate" where
  "append_result key status data results =
     (let inner = inner_of results key
      in dict_set key (dict_set status (bucket_of inner status @ [data]) inner) results)"

text \<open>\<^verbatim>\<open>d.update(other)\<close>: every key of \<open>other\<close> is assigned in \<open>d\<close>.\<close>

definition dict_update :: "('k \<times> 'v) list \<Rightarrow> ('k \<times> 'v) list \<Rightarrow> ('k \<times> 'v) list" where
  "dict_update d other = fold (\<lambda>(k, v) acc. dict_set k v acc) other d"

text \<open>
  The merge of \<^verbatim>\<open>delete_snapshots\<close> (lines 613-616):
  \<^verbatim>\<open>for subscription, data in deletion_results.items(): results[subscription].update(data)\<close>.
\<close>

definition merge_results :: "aggregate \<Rightarrow> aggregate \<Rightarrow> aggregate" where
  "merge_results pre_validation_results deletion_results =
     fold (\<lambda>(subscription, data) results.
             dict_set subscription (dict_update (inner_of results subscription) data) results)
          deletion_results pre_validation_results"

text \<open>
  \<^verbatim>\<open>print_summary\<close> (lines 506-523): one row of four counts per grouping key, and the
  totals row.
\<close>

definition summary_row :: "buckets \<Rightarrow> nat \<times> nat \<times> nat \<times> nat" where
  "summary_row data =
     (length (bucket_of data ''valid''), length (bucket_of data ''non-existent''),
      length (bucket_of data ''deleted''), length (bucket_of data ''failed''))"

fun summary_totals :: "aggregate \<Rightarrow> nat \<times> nat \<times> nat \<times> nat \<Rightarrow> nat \<times> nat \<times> nat \<times> nat" where
  "summary_totals [] totals = totals"
| "summary_totals ((subscription_name, data) # rest)
       (total_valid, total_non_existent, total_deleted, total_failed) =
     (case summary_row data of
        (valid_count, non_existent_count, deleted_count, failed_count) \<Rightarrow>
          summary_totals rest
            (total_valid + valid_count, total_non_existent + non_existent_count,
             total_deleted + deleted_count, total_failed + failed_count))"

definition print_summary :: "aggregate \<Rightarrow> nat \<times> nat \<times> nat \<times> nat" where
  "print_summary results = summary_totals results (0, 0, 0, 0)"

definition totals_sum :: "nat \<times> nat \<times> nat \<times> nat \<Rightarrow> nat" where
  "totals_sum t = (case t of (a, b, c, d) \<Rightarrow> a + b + c + d)"

text \<open>The number of payloads under one status, summed over all grouping keys.\<close>

definition status_total :: "string \<Rightarrow> aggregate \<Rightarrow> nat" where
  "status_total status results =
     sum_list (map (\<lambda>(key, data). length (bucket_of data status)) results)"

text \<open>Every status of every grouping key of an aggregate lies in the set \<open>S\<close>.\<close>

definition statuses_within :: "string set \<Rightarrow> aggregate \<Rightarrow> bool" where
  "statuses_within S results = (\<forall>(key, data) \<in> set results. fst ` set data \<subseteq> S)"

subsection \<open>Delete path: per-item workers\<close>

text \<open>\<^verbatim>\<open>check_snapshot_exists\<close> (lines 419-422) and \<^verbatim>\<open>delete_snapshot\<close> (lines 444-447).\<close>

definition check_snapshot_exists :: "env \<Rightarrow> string \<Rightarrow> history \<Rightarrow> (exn + bool) \<times> history" where
  "check_snapshot_exists E snapshot_id h =
     (case run_az_command E (Shell (''az snapshot show --ids '' @ snapshot_id)) h of
        (Inl e, h') \<Rightarrow> (Inl e, h')
      | (Inr result, h') \<Rightarrow> (Inr (\<not> startswith ''Error:'' result), h'))"

definition delete_snapshot :: "env \<Rightarrow> string \<Rightarrow> history \<Rightarrow> (exn + bool) \<times> history" where
  "delete_snapshot E snapshot_id h =
     (case run_az_command E (Shell (''az snapshot delete --ids '' @ snapshot_id)) h of
        (Inl e, h') \<Rightarrow> (Inl e, h')
      | (Inr result, h') \<Rightarrow> (Inr (\<not> startswith ''Error:'' result), h'))"

text \<open>
  \<^verbatim>\<open>process_snapshot\<close> (lines 424-442). \<open>process_snapshot_body\<close> is the body of the
  \<^verbatim>\<open>try\<close>; \<open>process_snapshot\<close> adds the \<^verbatim>\<open>except Exception\<close> handler. The result is the
  triple (subscription name or \<^verbatim>\<open>None\<close>, status, payload).
\<close>

type_synonym outcome = "string option \<times> string \<times> payload"

definition process_snapshot_body ::
  "env \<Rightarrow> string \<Rightarrow> (string \<rightharpoonup> string) \<Rightarrow> history \<Rightarrow> (exn + outcome) \<times> history" where
  "process_snapshot_body E snapshot_id subscription_names h =
     (let parts = split_on CHR ''/'' snapshot_id in
      if length parts < 9
      then (Inr (None, ''invalid'', Detail snapshot_id ''Invalid snapshot ID format''), h)
      else
        (let subscription_id = parts ! 2;
             subscription_name =
               (case subscription_names subscription_id of
                  None \<Rightarrow> subscription_id
                | Some n \<Rightarrow> n);
             snapshot_name = last parts
         in case check_snapshot_exists E snapshot_id h of
              (Inl e, h') \<Rightarrow> (Inl e, h')
            | (Inr exists, h') \<Rightarrow>
                (if \<not> exists
                 then (Inr (Some subscription_name, ''non-existent'', Name snapshot_name), h')
                 else (Inr (Some subscription_name, ''valid'', Name snapshot_name), h'))))"

definition process_snapshot ::
  "env \<Rightarrow> string \<Rightarrow> (string \<rightharpoonup> string) \<Rightarrow> history \<Rightarrow> outcome \<times> history" where
  "process_snapshot E snapshot_id subscription_names h =
     (case process_snapshot_body E snapshot_id subscription_names h of
        (Inl e, h') \<Rightarrow> ((None, ''error'', Detail snapshot_id (exn_str e)), h')
      | (Inr r, h') \<Rightarrow> (r, h'))"

subsection \<open>Delete path: the two dispatchers\<close>

text \<open>
  A dispatcher submits one worker call per identifier to the pool and handles the
  futures in the order \<^verbatim>\<open>as_completed\<close> yields them. The loops below take the
  identifiers in that order; the worker of an identifier runs, then its future is
  handled. \<open>worker\<close> is the submitted callable: \<open>Inl\<close> is the exception that
  \<^verbatim>\<open>future.result()\<close> re-raises.

  \<^verbatim>\<open>pre_validate_snapshots\<close> (lines 449-470): the handler of the \<^verbatim>\<open>try\<close> only calls
  \<^verbatim>\<open>logging.error\<close>.
\<close>

fun pre_validate_loop ::
  "(string \<Rightarrow> history \<Rightarrow> (exn + outcome) \<times> history) \<Rightarrow> string list
     \<Rightarrow> string list \<times> aggregate \<Rightarrow> history \<Rightarrow> (string list \<times> aggregate) \<times> history" where
  "pre_validate_loop worker [] acc h = (acc, h)"
| "pre_validate_loop worker (snapshot_id # rest) (valid_snapshots, results) h =
     (case worker snapshot_id h of
        (Inl e, h') \<Rightarrow> pre_validate_loop worker rest (valid_snapshots, results) h'
      | (Inr (subscription_name, status, data), h') \<Rightarrow>
          (case subscription_name of
             None \<Rightarrow>
               pre_validate_loop worker rest
                 (valid_snapshots, append_result ''Unknown'' status data results) h'
           | Some n \<Rightarrow>
               (if n \<noteq> []
                then pre_validate_loop worker rest
                       (if status = ''valid'' then valid_snapshots @ [snapshot_id]
                        else valid_snapshots,
                        append_result n status data results) h'
                else pre_validate_loop worker rest
                       (valid_snapshots, append_result ''Unknown'' status data results) h')))"

definition pre_validate_with ::
  "env \<Rightarrow> (string \<Rightarrow> history \<Rightarrow> (exn + outcome) \<times> history) \<Rightarrow> string list \<Rightarrow> history
     \<Rightarrow> (string list \<times> aggregate) \<times> history" where
  "pre_validate_with E worker snapshot_ids h =
     pre_validate_loop worker (as_completed E snapshot_ids) ([], []) h"

definition pre_validate_snapshots ::
  "env \<Rightarrow> string list \<Rightarrow> (string \<rightharpoonup> string) \<Rightarrow> history
     \<Rightarrow> (string list \<times> aggregate) \<times> history" where
  "pre_validate_snapshots E snapshot_ids subscription_names h =
     pre_validate_with E
       (\<lambda>snapshot_id h0.
          case process_snapshot E snapshot_id subscription_names h0 of (r, h') \<Rightarrow> (Inr r, h'))
       snapshot_ids h"

text \<open>
  \<^verbatim>\<open>delete_valid_snapshots\<close> (lines 472-496): the handler of the \<^verbatim>\<open>try\<close> files the
  identifier and \<^verbatim>\<open>str(e)\<close> under \<^verbatim>\<open>results["Unknown"]["error"]\<close>. Inside the \<^verbatim>\<open>try\<close>,
  \<^verbatim>\<open>parts[2]\<close> raises \<^verbatim>\<open>IndexError\<close> on fewer than three segments.
\<close>

fun delete_loop ::
  "(string \<Rightarrow> history \<Rightarrow> (exn + bool) \<times> history) \<Rightarrow> (string \<rightharpoonup> string) \<Rightarrow> string list
     \<Rightarrow> aggregate \<Rightarrow> history \<Rightarrow> aggregate \<times> history" where
  "delete_loop worker subscription_names [] results h = (results, h)"
| "delete_loop worker subscription_names (snapshot_id # rest) results h =
     (case worker snapshot_id h of
        (Inl e, h') \<Rightarrow>
          delete_loop worker subscription_names rest
            (append_result ''Unknown'' ''error'' (Detail snapshot_id (exn_str e)) results) h'
      | (Inr success, h') \<Rightarrow>
          (let parts = split_on CHR ''/'' snapshot_id in
           if length parts < 3
           then delete_loop worker subscription_names rest
                  (append_result ''Unknown'' ''error''
                     (Detail snapshot_id ''list index out of range'') results) h'
           else
             (let subscription_id = parts ! 2;
                  subscription_name =
                    (case subscription_names subscription_id of
                       None \<Rightarrow> subscription_id
                     | Some n \<Rightarrow> n);
                  snapshot_name = last parts
              in if success
                 then delete_loop worker subscription_names rest
                        (append_result subscription_name ''deleted'' (Name snapshot_name) results) h'
                 else delete_loop worker subscription_names rest
                        (append_result subscription_name ''failed''
                           (Detail snapshot_name ''Deletion failed'') results) h')))"

definition delete_valid_with ::
  "env \<Rightarrow> (string \<Rightarrow> history \<Rightarrow> (exn + bool) \<times> history) \<Rightarrow> string list
     \<Rightarrow> (string \<rightharpoonup> string) \<Rightarrow> history \<Rightarrow> aggregate \<times> history" where
  "delete_valid_with E worker valid_snapshots subscription_names h =
     delete_loop worker subscription_names (as_completed E valid_snapshots) [] h"

definition delete_valid_snapshots ::
  "env \<Rightarrow> string list \<Rightarrow> (string \<rightharpoonup> string) \<Rightarrow> history \<Rightarrow> aggregate \<times> history" where
  "delete_valid_snapshots E valid_snapshots subscription_names h =
     delete_valid_with E (delete_snapshot E) valid_snapshots subscription_names h"

subsection \<open>Lock guard\<close>

text \<open>
  \<^verbatim>\<open>get_resource_groups_from_snapshots\<close> (lines 379-385). The Python \<^verbatim>\<open>set\<close> is the list
  of its elements without repetition; \<open>set_iter\<close> of the environment gives the order
  of an iteration over it.
\<close>

fun get_resource_groups_from_snapshots :: "string list \<Rightarrow> (string \<times> string) list" where
  "get_resource_groups_from_snapshots [] = []"
| "get_resource_groups_from_snapshots (snapshot_id # rest) =
     (let parts = split_on CHR ''/'' snapshot_id;
          resource_groups = get_resource_groups_from_snapshots rest
      in if length parts \<ge> 5
         then List.insert (parts ! 2, parts ! 4) resource_groups
         else resource_groups)"

text \<open>
  \<^verbatim>\<open>switch_subscription\<close> (lines 110-119): \<open>current_subscription\<close> is \<^verbatim>\<open>None\<close> at first.
  The handler re-raises.
\<close>

definition switch_subscription ::
  "env \<Rightarrow> string \<Rightarrow> string option \<Rightarrow> history \<Rightarrow> (exn + string option) \<times> history" where
  "switch_subscription E subscription current_subscription h =
     (if Some subscription \<noteq> current_subscription
      then (case run_az_command E
                   (Argv [''az'', ''account'', ''set'', ''--subscription'', subscription]) h of
              (Inl e, h') \<Rightarrow> (Inl e, h')
            | (Inr r, h') \<Rightarrow> (Inr (Some subscription), h'))
      else (Inr current_subscription, h))"

text \<open>
  Python on a parsed JSON value: \<^verbatim>\<open>for x in v\<close>, \<^verbatim>\<open>v[key]\<close> with a string key,
  \<^verbatim>\<open>v.get(key)\<close> and the truth value \<^verbatim>\<open>if v\<close>. An object read by \<^verbatim>\<open>json.loads\<close> has one
  member per key.
\<close>

definition type_name :: "json \<Rightarrow> string" where
  "type_name v =
     (case v of
        JNull \<Rightarrow> ''NoneType'' | JBool b \<Rightarrow> ''bool'' | JInt i \<Rightarrow> ''int''
      | JStr s \<Rightarrow> ''str'' | JArr xs \<Rightarrow> ''list'' | JObj kvs \<Rightarrow> ''dict'')"

definition quoted :: "string \<Rightarrow> string" where
  "quoted s = [CHR 0x27] @ s @ [CHR 0x27]"

definition py_iter :: "json \<Rightarrow> exn + json list" where
  "py_iter v =
     (case v of
        JArr xs \<Rightarrow> Inr xs
      | JObj kvs \<Rightarrow> Inr (map (\<lambda>(k, x). JStr k) kvs)
      | JStr s \<Rightarrow> Inr (map (\<lambda>c. JStr [c]) s)
      | _ \<Rightarrow> Inl (Exn TypeError (quoted (type_name v) @ '' object is not iterable'')))"

definition py_getitem :: "json \<Rightarrow> string \<Rightarrow> exn + json" where
  "py_getitem v key =
     (case v of
        JObj kvs \<Rightarrow>
          (case map_of kvs key of
             None \<Rightarrow> Inl (Exn KeyError (quoted key))
           | Some x \<Rightarrow> Inr x)
      | JArr xs \<Rightarrow> Inl (Exn TypeError ''list indices must be integers or slices, not str'')
      | JStr s \<Rightarrow> Inl (Exn TypeError (''string indices must be integers, not '' @ quoted ''str''))
      | _ \<Rightarrow> Inl (Exn TypeError (quoted (type_name v) @ '' object is not subscriptable'')))"

definition py_get :: "json \<Rightarrow> string \<Rightarrow> exn + json" where
  "py_get v key =
     (case v of
        JObj kvs \<Rightarrow> (case map_of kvs key of None \<Rightarrow> Inr JNull | Some x \<Rightarrow> Inr x)
      | _ \<Rightarrow> Inl (Exn AttributeError
                  (quoted (type_name v) @ '' object has no attribute '' @ quoted ''get'')))"

definition truthy :: "json \<Rightarrow> bool" where
  "truthy v =
     (case v of
        JNull \<Rightarrow> False | JBool b \<Rightarrow> b | JInt i \<Rightarrow> i \<noteq> 0
      | JStr s \<Rightarrow> s \<noteq> [] | JArr xs \<Rightarrow> xs \<noteq> [] | JObj kvs \<Rightarrow> kvs \<noteq> [])"

text \<open>
  A lock record is \<^verbatim>\<open>(subscription_id, resource_group, lock['name'])\<close>; the name is
  the JSON value as parsed.
\<close>

type_synonym lock_record = "string \<times> string \<times> json"

definition lock_delete_command :: "env \<Rightarrow> lock_record \<Rightarrow> command" where
  "lock_delete_command E r =
     (case r of (subscription_id, resource_group, name) \<Rightarrow>
        Shell (''az lock delete --name '' @ py_str E name
                 @ '' --resource-group '' @ resource_group))"

definition lock_create_command :: "env \<Rightarrow> lock_record \<Rightarrow> command" where
  "lock_create_command E r =
     (case r of (subscription_id, resource_group, lock_name) \<Rightarrow>
        Shell (''az lock create --name '' @ py_str E lock_name
                 @ '' --resource-group '' @ resource_group @ '' --lock-type CanNotDelete''))"

definition lock_list_command :: "string \<Rightarrow> command" where
  "lock_list_command resource_group =
     Shell (''az lock list --resource-group '' @ resource_group
              @ '' --query '[].{name:name, level:level}' -o json'')"

text \<open>
  \<^verbatim>\<open>check_and_remove_scope_locks\<close> (lines 387-403): \<open>remove_locks\<close> is the inner loop over
  the locks of one resource group, \<open>scan_groups\<close> the outer loop.
\<close>

fun remove_locks ::
  "env \<Rightarrow> string \<Rightarrow> string \<Rightarrow> json list \<Rightarrow> lock_record list \<Rightarrow> history
     \<Rightarrow> (exn + lock_record list) \<times> history" where
  "remove_locks E subscription_id resource_group [] removed_locks h = (Inr removed_locks, h)"
| "remove_locks E subscription_id resource_group (lock # locks) removed_locks h =
     (case py_getitem lock ''level'' of
        Inl e \<Rightarrow> (Inl e, h)
      | Inr level \<Rightarrow>
          (if level = JStr ''CanNotDelete''
           then (case py_getitem lock ''name'' of
                   Inl e \<Rightarrow> (Inl e, h)
                 | Inr name \<Rightarrow>
                     (case run_az_command E
                             (lock_delete_command E (subscription_id, resource_group, name)) h of
                        (Inl e, h') \<Rightarrow> (Inl e, h')
                      | (Inr result, h') \<Rightarrow>
                          (if \<not> startswith ''Error:'' result
                           then remove_locks E subscription_id resource_group locks
                                  (removed_locks @ [(subscription_id, resource_group, name)]) h'
                           else remove_locks E subscription_id resource_group locks
                                  removed_locks h')))
           else remove_locks E subscription_id resource_group locks removed_locks h))"

fun scan_groups ::
  "env \<Rightarrow> (string \<times> string) list \<Rightarrow> string option \<Rightarrow> lock_record list \<Rightarrow> history
     \<Rightarrow> (exn + lock_record list) \<times> history" where
  "scan_groups E [] current_subscription removed_locks h = (Inr removed_locks, h)"
| "scan_groups E ((subscription_id, resource_group) # rest) current_subscription removed_locks h =
     (case switch_subscription E subscription_id current_subscription h of
        (Inl e, h1) \<Rightarrow> (Inl e, h1)
      | (Inr current, h1) \<Rightarrow>
          (case run_az_command E (lock_list_command resource_group) h1 of
             (Inl e, h2) \<Rightarrow> (Inl e, h2)
           | (Inr text, h2) \<Rightarrow>
               (case json_loads E text of
                  Inl msg \<Rightarrow> (Inl (Exn JSONDecodeError msg), h2)
                | Inr parsed \<Rightarrow>
                    (case py_iter parsed of
                       Inl e \<Rightarrow> (Inl e, h2)
                     | Inr locks \<Rightarrow>
                         (case remove_locks E subscription_id resource_group locks
                                 removed_locks h2 of
                            (Inl e, h3) \<Rightarrow> (Inl e, h3)
                          | (Inr removed, h3) \<Rightarrow> scan_groups E rest current removed h3)))))"

definition check_and_remove_scope_locks ::
  "env \<Rightarrow> (string \<times> string) list \<Rightarrow> history \<Rightarrow> (exn + lock_record list) \<times> history" where
  "check_and_remove_scope_locks E resource_groups h =
     scan_groups E (set_iter E resource_groups) None [] h"

text \<open>\<^verbatim>\<open>restore_scope_locks\<close> (lines 405-417).\<close>

fun restore_loop ::
  "env \<Rightarrow> lock_record list \<Rightarrow> string option \<Rightarrow> nat \<Rightarrow> history \<Rightarrow> (exn + nat) \<times> history" where
  "restore_loop E [] current_subscription restored_locks h = (Inr restored_locks, h)"
| "restore_loop E ((subscription_id, resource_group, lock_name) # rest)
       current_subscription restored_locks h =
     (case switch_subscription E subscription_id current_subscription h of
        (Inl e, h1) \<Rightarrow> (Inl e, h1)
      | (Inr current, h1) \<Rightarrow>
          (case run_az_command E
                  (lock_create_command E (subscription_id, resource_group, lock_name)) h1 of
             (Inl e, h2) \<Rightarrow> (Inl e, h2)
           | (Inr result, h2) \<Rightarrow>
               (if \<not> startswith ''Error:'' result
                then restore_loop E rest current (restored_locks + 1) h2
                else restore_loop E rest current restored_locks h2)))"

definition restore_scope_locks ::
  "env \<Rightarrow> lock_record list \<Rightarrow> history \<Rightarrow> (exn + nat) \<times> history" where
  "restore_scope_locks E removed_locks h = restore_loop E removed_locks None 0 h"

subsection \<open>The delete pipeline\<close>

text \<open>
  \<^verbatim>\<open>delete_snapshots\<close> from the pre-validation to the merge (lines 595-616). The calls
  follow each other with no \<^verbatim>\<open>try\<close> around them: an exception of one call ends the
  function.
\<close>

definition delete_snapshots ::
  "env \<Rightarrow> string list \<Rightarrow> (string \<rightharpoonup> string) \<Rightarrow> history \<Rightarrow> (exn + aggregate) \<times> history" where
  "delete_snapshots E snapshot_ids subscription_names h =
     (case pre_validate_snapshots E snapshot_ids subscription_names h of
        ((valid_snapshots, pre_validation_results), h1) \<Rightarrow>
          (if valid_snapshots = [] then (Inr pre_validation_results, h1)
           else
             (let resource_groups = get_resource_groups_from_snapshots valid_snapshots in
              case check_and_remove_scope_locks E resource_groups h1 of
                (Inl e, h2) \<Rightarrow> (Inl e, h2)
              | (Inr removed_locks, h2) \<Rightarrow>
                  (case delete_valid_snapshots E valid_snapshots subscription_names h2 of
                     (deletion_results, h3) \<Rightarrow>
                       (case restore_scope_locks E removed_locks h3 of
                          (Inl e, h4) \<Rightarrow> (Inl e, h4)
                        | (Inr restored_locks, h4) \<Rightarrow>
                            (Inr (merge_results pre_validation_results deletion_results),
                             h4))))))"

text \<open>
  The pipeline up to the lock removal, and up to the deletion pass: what
  \<^verbatim>\<open>check_and_remove_scope_locks\<close> and \<^verbatim>\<open>delete_valid_snapshots\<close> return inside
  \<^verbatim>\<open>delete_snapshots\<close>.
\<close>

definition removal_phase ::
  "env \<Rightarrow> string list \<Rightarrow> (string \<rightharpoonup> string) \<Rightarrow> history
     \<Rightarrow> (exn + lock_record list) \<times> history" where
  "removal_phase E snapshot_ids subscription_names h =
     (case pre_validate_snapshots E snapshot_ids subscription_names h of
        ((valid_snapshots, pre_validation_results), h1) \<Rightarrow>
          check_and_remove_scope_locks E
            (get_resource_groups_from_snapshots valid_snapshots) h1)"

definition deletion_phase ::
  "env \<Rightarrow> string list \<Rightarrow> (string \<rightharpoonup> string) \<Rightarrow> history \<Rightarrow> aggregate \<times> history" where
  "deletion_phase E snapshot_ids subscription_names h =
     (case pre_validate_snapshots E snapshot_ids subscription_names h of
        ((valid_snapshots, pre_validation_results), h1) \<Rightarrow>
          delete_valid_snapshots E valid_snapshots subscription_names
            (snd (removal_phase E snapshot_ids subscription_names h)))"

text \<open>The shell lines of a history, and their results as \<^verbatim>\<open>run_az_command\<close> returns them.\<close>

fun shell_cmds :: "history \<Rightarrow> command list" where
  "shell_cmds [] = []"
| "shell_cmds (Ran (Shell line) out # es) = Shell line # shell_cmds es"
| "shell_cmds (e # es) = shell_cmds es"

fun shell_results :: "env \<Rightarrow> history \<Rightarrow> (exn + string) list" where
  "shell_results E [] = []"
| "shell_results E (Ran (Shell line) out # es) =
     az_result E (Shell line) out # shell_results E es"
| "shell_results E (e # es) = shell_results E es"

definition succeeded :: "exn + string \<Rightarrow> bool" where
  "succeeded r = (case r of Inl e \<Rightarrow> False | Inr text \<Rightarrow> \<not> startswith ''Error:'' text)"

subsection \<open>Create path\<close>





definition is_digit :: "char \<Rightarrow> bool" where
  "is_digit c = (48 \<le> (of_char c :: nat) \<and> (of_char c :: nat) \<le> 57)"

text \<open>The name of line 161: \<^verbatim>\<open>f"RH_{chg_number}_{vm_name}_{timestamp}"\<close>.\<close>

definition snapshot_name_of :: "string \<Rightarrow> string \<Rightarrow> string \<Rightarrow> string" where
  "snapshot_name_of chg_number vm_name timestamp =
     ''RH_'' @ chg_number @ ''_'' @ vm_name @ ''_'' @ timestamp"

definition write_detailed_log :: "string list \<Rightarrow> history \<Rightarrow> history" where
  "write_detailed_log messages h = h @ map Logged messages"

text \<open>
  The end of \<^verbatim>\<open>process_vm\<close> (lines 168-186), after the snapshot-create command has
  succeeded with output \<open>out\<close>: only \<^verbatim>\<open>json.JSONDecodeError\<close> is caught.
\<close>

definition record_snapshot ::
  "env \<Rightarrow> string \<Rightarrow> string \<Rightarrow> string \<Rightarrow> history \<Rightarrow> (exn + string \<times> string) \<times> history" where
  "record_snapshot E vm_name snapshot_name out h =
     (let h1 = write_detailed_log [''Snapshot created: '' @ snapshot_name] h;
          done = (\<lambda>h'. (Inr (vm_name, snapshot_name),
                         write_detailed_log [''Snapshot created successfully for VM: '' @ vm_name] h'))
      in case json_loads E out of
           Inl msg \<Rightarrow>
             done (write_detailed_log
                     [''Warning: Could not parse snapshot creation output as JSON. Raw output:'',
                      out] h1)
         | Inr snapshot_data \<Rightarrow>
             (let h2 = write_detailed_log [json_dumps E snapshot_data] h1 in
              case py_get snapshot_data ''id'' of
                Inl e \<Rightarrow> (Inl e, h2)
              | Inr snapshot_id \<Rightarrow>
                  (if truthy snapshot_id
                   then done (write_detailed_log
                                [''Snapshot resource ID added to snap_rid_list.txt: ''
                                   @ py_str E snapshot_id]
                                (h2 @ [RidWritten (py_str E snapshot_id)]))
                   else done (write_detailed_log
                                [''Warning: Could not extract snapshot resource ID for ''
                                   @ snapshot_name] h2))))"

text \<open>
  \<^verbatim>\<open>process_vm\<close> (lines 122-186). \<open>timestamp\<close> is the global of line 31.
  \<^verbatim>\<open>resource_id.split("/")[2]\<close> raises \<^verbatim>\<open>IndexError\<close> on fewer than three segments.
\<close>

definition vm_show_command :: "string \<Rightarrow> string \<Rightarrow> string" where
  "vm_show_command resource_id query =
     ''az vm show --ids '' @ resource_id @ '' --query '' @ quoted query @ '' -o tsv''"

definition process_vm ::
  "env \<Rightarrow> string \<Rightarrow> string \<Rightarrow> string \<Rightarrow> string \<Rightarrow> history
     \<Rightarrow> (exn + string \<times> string) \<times> history" where
  "process_vm E timestamp resource_id vm_name chg_number h0 =
     (let h = write_detailed_log
                [''Processing VM: '' @ vm_name, ''Resource ID: '' @ resource_id] h0;
          parts = split_on CHR ''/'' resource_id
      in if length parts < 3 then (Inl (Exn IndexError ''list index out of range''), h)
      else
        (let subscription_id = parts ! 2 in
         if subscription_id = []
         then (Inr (vm_name, ''Failed to get subscription ID''),
               write_detailed_log [''Failed to get subscription ID for VM: '' @ vm_name] h)
         else
           (case run_az_command_async_default E
                   (''az account set --subscription '' @ subscription_id) h of
              (Inl e, h1) \<Rightarrow> (Inl e, h1)
            | (Inr (out1, err1, rc1), h1) \<Rightarrow>
                (if rc1 \<noteq> 0
                 then (Inr (vm_name, ''Failed to set subscription ID''),
                       write_detailed_log
                         [''Failed to set subscription ID: '' @ subscription_id,
                          ''Error: '' @ err1] h1)
                 else
                   (case run_az_command_async_default E
                           (vm_show_command resource_id
                              ''storageProfile.osDisk.managedDisk.id'')
                           (write_detailed_log [''Subscription ID: '' @ subscription_id] h1) of
                      (Inl e, h2) \<Rightarrow> (Inl e, h2)
                    | (Inr (out2, err2, rc2), h2) \<Rightarrow>
                        (if rc2 \<noteq> 0 \<or> out2 = []
                         then (Inr (vm_name, ''Failed to get disk ID''),
                               write_detailed_log
                                 [''Failed to get disk ID for VM: '' @ vm_name,
                                  ''Error: '' @ err2] h2)
                         else
                           (case run_az_command_async_default E
                                   (vm_show_command resource_id ''resourceGroup'') h2 of
                              (Inl e, h3) \<Rightarrow> (Inl e, h3)
                            | (Inr (out3, err3, rc3), h3) \<Rightarrow>
                                (if rc3 \<noteq> 0
                                 then (Inr (vm_name, ''Failed to get resource group''),
                                       write_detailed_log
                                         [''Failed to get resource group for VM: '' @ vm_name,
                                          ''Error: '' @ err3] h3)
                                 else
                                   (let disk_id = out2;
                                        resource_group = out3;
                                        snapshot_name =
                                          snapshot_name_of chg_number vm_name timestamp
                                    in case run_az_command_async_default E
                                              (''az snapshot create --name '' @ snapshot_name
                                                 @ '' --resource-group '' @ resource_group
                                                 @ '' --source '' @ disk_id)
                                              (write_detailed_log
                                                 [''Resource group name: '' @ resource_group] h3) of
                                         (Inl e, h4) \<Rightarrow> (Inl e, h4)
                                       | (Inr (out4, err4, rc4), h4) \<Rightarrow>
                                           (if rc4 \<noteq> 0
                                            then (Inr (vm_name, ''Failed to create snapshot''),
                                                  write_detailed_log
                                                    [''Failed to create snapshot for VM: '' @ vm_name,
                                                     ''Error: '' @ err4] h4)
                                            else record_snapshot E vm_name snapshot_name
                                                   out4 h4))))))))))"




subsection \<open>Observations on a history\<close>

text \<open>
  The results of all commands of a history; \<open>raised E new e\<close>: the last event of \<open>new\<close>
  is a command from which \<^verbatim>\<open>run_az_command\<close> raised \<open>e\<close>; the lock deletions of a
  history that did not end in an error text.
\<close>

fun cmd_results :: "env \<Rightarrow> history \<Rightarrow> (exn + string) list" where
  "cmd_results E [] = []"
| "cmd_results E (Ran c out # es) = az_result E c out # cmd_results E es"
| "cmd_results E (e # es) = cmd_results E es"

definition raised :: "env \<Rightarrow> history \<Rightarrow> exn \<Rightarrow> bool" where
  "raised E new e =
     (case rev new of
        Ran c out # earlier \<Rightarrow> az_result E c out = Inl e
      | _ \<Rightarrow> False)"

definition is_lock_delete :: "command \<Rightarrow> bool" where
  "is_lock_delete c =
     (case c of Shell line \<Rightarrow> startswith ''az lock delete --name '' line | Argv args \<Rightarrow> False)"

fun confirmed_deletes :: "env \<Rightarrow> history \<Rightarrow> command list" where
  "confirmed_deletes E [] = []"
| "confirmed_deletes E (Ran c out # es) =
     (if is_lock_delete c \<and> succeeded (az_result E c out)
      then c # confirmed_deletes E es
      else confirmed_deletes E es)"
| "confirmed_deletes E (e # es) = confirmed_deletes E es"

subsection \<open>The stages of the create worker\<close>

text \<open>
  The four commands of \<^verbatim>\<open>process_vm\<close> as stages: each runs from the history the stage
  before it left (lines 133, 142, 151 and 162), and the later ones use the output
  of the earlier ones.
\<close>

definition output_of :: "exn + string \<times> string \<times> int \<Rightarrow> string" where
  "output_of r = (case r of Inl e \<Rightarrow> [] | Inr (out, err, rc) \<Rightarrow> out)"

definition errors_of :: "exn + string \<times> string \<times> int \<Rightarrow> string" where
  "errors_of r = (case r of Inl e \<Rightarrow> [] | Inr (out, err, rc) \<Rightarrow> err)"

definition exited_zero :: "exn + string \<times> string \<times> int \<Rightarrow> bool" where
  "exited_zero r = (case r of Inl e \<Rightarrow> False | Inr (out, err, rc) \<Rightarrow> rc = 0)"

definition exited_nonzero :: "exn + string \<times> string \<times> int \<Rightarrow> bool" where
  "exited_nonzero r = (case r of Inl e \<Rightarrow> False | Inr (out, err, rc) \<Rightarrow> rc \<noteq> 0)"

definition subscription_stage ::
  "env \<Rightarrow> string \<Rightarrow> string \<Rightarrow> history \<Rightarrow> (exn + string \<times> string \<times> int) \<times> history" where
  "subscription_stage E resource_id vm_name h0 =
     run_az_command_async_default E
       (''az account set --subscription '' @ split_on CHR ''/'' resource_id ! 2)
       (write_detailed_log [''Processing VM: '' @ vm_name, ''Resource ID: '' @ resource_id] h0)"

definition disk_stage ::
  "env \<Rightarrow> string \<Rightarrow> string \<Rightarrow> history \<Rightarrow> (exn + string \<times> string \<times> int) \<times> history" where
  "disk_stage E resource_id vm_name h0 =
     run_az_command_async_default E
       (vm_show_command resource_id ''storageProfile.osDisk.managedDisk.id'')
       (write_detailed_log [''Subscription ID: '' @ split_on CHR ''/'' resource_id ! 2]
          (snd (subscription_stage E resource_id vm_name h0)))"

definition group_stage ::
  "env \<Rightarrow> string \<Rightarrow> string \<Rightarrow> history \<Rightarrow> (exn + string \<times> string \<times> int) \<times> history" where
  "group_stage E resource_id vm_name h0 =
     run_az_command_async_default E (vm_show_command resource_id ''resourceGroup'')
       (snd (disk_stage E resource_id vm_name h0))"

definition create_stage ::
  "env \<Rightarrow> string \<Rightarrow> string \<Rightarrow> string \<Rightarrow> string \<Rightarrow> history
     \<Rightarrow> (exn + string \<times> string \<times> int) \<times> history" where
  "create_stage E timestamp resource_id vm_name chg_number h0 =
     run_az_command_async_default E
       (''az snapshot create --name '' @ snapshot_name_of chg_number vm_name timestamp
          @ '' --resource-group '' @ output_of (fst (group_stage E resource_id vm_name h0))
          @ '' --source '' @ output_of (fst (disk_stage E resource_id vm_name h0)))
       (write_detailed_log
          [''Resource group name: '' @ output_of (fst (group_stage E resource_id vm_name h0))]
          (snd (group_stage E resource_id vm_name h0)))"


subsection \<open>Well-formed aggregates, faults of a shell line, and a dispatcher part-way\<close>

text \<open>
  An aggregate as a Python \<^verbatim>\<open>dict\<close> of \<^verbatim>\<open>dict\<close>s has one entry per grouping key and one
  bucket per status.
\<close>

definition dict_ok :: "aggregate \<Rightarrow> bool" where
  "dict_ok results =
     (distinct (map fst results) \<and> (\<forall>(key, data) \<in> set results. distinct (map fst data)))"

text \<open>
  A shell line is run by \<^verbatim>\<open>Popen\<close> (lines 73-77), which does not raise
  \<^verbatim>\<open>CalledProcessError\<close>: only \<^verbatim>\<open>subprocess.run(check=True)\<close> of an argument vector
  does (line 70). Every exception of a shell line is therefore one that
  \<^verbatim>\<open>run_az_command\<close> turns into an error text.
\<close>

definition shell_faults_caught :: "env \<Rightarrow> bool" where
  "shell_faults_caught E =
     (\<forall>h line e. sh E h (Shell line) = Fault e \<longrightarrow> exn_class e \<noteq> CalledProcessError)"



subsection \<open>Example runs\<close>

text \<open>
  Concrete environments for the closed examples below. \<open>str_of_json\<close> is \<^verbatim>\<open>str()\<close> on
  the JSON strings and on the lists of plain strings, which is all the examples
  format.
\<close>

fun join_comma :: "string list \<Rightarrow> string" where
  "join_comma [] = []"
| "join_comma [x] = x"
| "join_comma (x # y # xs) = x @ '', '' @ join_comma (y # xs)"

definition str_of_json :: "json \<Rightarrow> string" where
  "str_of_json v =
     (case v of
        JStr s \<Rightarrow> s
      | JArr xs \<Rightarrow>
          ''['' @ join_comma (map (\<lambda>x. case x of JStr s \<Rightarrow> quoted s | _ \<Rightarrow> ''?'') xs) @ '']''
      | _ \<Rightarrow> ''?'')"

definition exit_with :: "string \<Rightarrow> string \<Rightarrow> int \<Rightarrow> sh_out" where
  "exit_with out err rc = Exited \<lparr>stdout = out, stderr = err, returncode = rc\<rparr>"

definition env_of :: "(history \<Rightarrow> command \<Rightarrow> sh_out) \<Rightarrow> (string \<Rightarrow> string + json) \<Rightarrow> env" where
  "env_of tool loads =
     \<lparr>sh = tool, json_loads = loads, json_dumps = str_of_json, py_str = str_of_json,
      as_completed = (\<lambda>ids. ids), set_iter = (\<lambda>keys. keys)\<rparr>"

definition no_json :: "string \<Rightarrow> string + json" where
  "no_json s = Inl ''Expecting value: line 1 column 1 (char 0)''"

text \<open>A tool whose every command succeeds with empty output.\<close>

definition calm_env :: env where
  "calm_env = env_of (\<lambda>h cmd. exit_with '''' '''' 0) no_json"

text \<open>A tool that fails the first two commands of a run and serves the third.\<close>

definition flaky_env :: env where
  "flaky_env =
     env_of (\<lambda>h cmd. if length (ran_outs h) < 2 then exit_with '''' '' busy '' 1
                      else exit_with '' done '' '''' 0) no_json"

text \<open>A tool on which every shell line raises \<^verbatim>\<open>CalledProcessError\<close>.\<close>

definition raising_env :: env where
  "raising_env = env_of (\<lambda>h cmd. Fault (Exn CalledProcessError ''boom'')) no_json"

text \<open>
  A tool whose every command succeeds and prints \<^verbatim>\<open>[]\<close>, which parses to the empty
  array: every snapshot exists, no resource group has a lock, every deletion
  succeeds.
\<close>

definition empty_array_only :: "string \<Rightarrow> string + json" where
  "empty_array_only s = (if s = ''[]'' then Inr (JArr []) else no_json s)"

definition tidy_env :: env where
  "tidy_env = env_of (\<lambda>h cmd. exit_with ''[]'' '''' 0) empty_array_only"

text \<open>
  Two well-formed snapshot identifiers of one subscription (nine segments each),
  and a tool on which the existence check of the first and the deletion of the
  second exit with code 1; every other command succeeds and prints \<^verbatim>\<open>[]\<close>.
\<close>

definition snap_a :: string where
  "snap_a = ''/subscriptions/S1/resourceGroups/G1/providers/Microsoft.Compute/snapshots/a''"

definition snap_b :: string where
  "snap_b = ''/subscriptions/S1/resourceGroups/G1/providers/Microsoft.Compute/snapshots/b''"

definition rough_tool :: "history \<Rightarrow> command \<Rightarrow> sh_out" where
  "rough_tool h cmd =
     (if cmd = Shell (''az snapshot show --ids '' @ snap_a)
      then exit_with '''' ''not found'' 1
      else if cmd = Shell (''az snapshot delete --ids '' @ snap_b)
      then exit_with '''' ''in use'' 1
      else exit_with ''[]'' '''' 0)"

definition rough_env :: env where
  "rough_env = env_of rough_tool empty_array_only"

text \<open>
  A tool on which the resource group of \<open>snap_a\<close> carries one deletion lock \<open>keep\<close>
  and one read-only lock; every command succeeds.
\<close>

definition one_lock :: "string \<Rightarrow> string + json" where
  "one_lock s =
     (if s = ''LOCKS''
      then Inr (JArr [JObj [(''name'', JStr ''keep''), (''level'', JStr ''CanNotDelete'')],
                      JObj [(''name'', JStr ''look''), (''level'', JStr ''ReadOnly'')]])
      else no_json s)"

definition locked_tool :: "history \<Rightarrow> command \<Rightarrow> sh_out" where
  "locked_tool h cmd =
     (if cmd = lock_list_command ''G1'' then exit_with ''LOCKS'' '''' 0
      else exit_with '''' '''' 0)"

definition locked_env :: env where
  "locked_env = env_of locked_tool one_lock"

text \<open>
  The same tool, except that \<^verbatim>\<open>az account set\<close> fails once a lock has been deleted,
  and the same tool, except that \<^verbatim>\<open>az lock create\<close> fails.
\<close>

definition relock_tool :: "history \<Rightarrow> command \<Rightarrow> sh_out" where
  "relock_tool h cmd =
     (case cmd of
        Argv args \<Rightarrow>
          (if list_ex is_lock_delete (ran_cmds h) then exit_with '''' ''expired'' 1
           else exit_with '''' '''' 0)
      | Shell line \<Rightarrow> locked_tool h cmd)"

definition relock_env :: env where
  "relock_env = env_of relock_tool one_lock"

definition no_create_tool :: "history \<Rightarrow> command \<Rightarrow> sh_out" where
  "no_create_tool h cmd =
     (case cmd of
        Argv args \<Rightarrow> exit_with '''' '''' 0
      | Shell line \<Rightarrow>
          (if startswith ''az lock create'' line then exit_with '''' ''denied'' 1
           else locked_tool h cmd))"

definition no_create_env :: env where
  "no_create_env = env_of no_create_tool one_lock"

text \<open>
  A tool whose every command succeeds and prints \<^verbatim>\<open>disk1\<close>, which is not JSON, and a
  VM of the list.
\<close>

definition vm_env :: env where
  "vm_env = env_of (\<lambda>h cmd. exit_with ''disk1'' '''' 0) no_json"

definition vm_a :: string where
  "vm_a = ''/subscriptions/S1/resourceGroups/G1/providers/Microsoft.Compute/virtualMachines/vm1''"

section \<open>Properties\<close>

subsection \<open>Reading histories\<close>

lemma ran_cmds_append [simp]: "ran_cmds (xs @ ys) = ran_cmds xs @ ran_cmds ys"
  by (induction xs rule: ran_cmds.induct) auto

lemma ran_outs_append [simp]: "ran_outs (xs @ ys) = ran_outs xs @ ran_outs ys"
  by (induction xs rule: ran_outs.induct) auto

lemma sleeps_append [simp]: "sleeps (xs @ ys) = sleeps xs @ sleeps ys"
  by (induction xs rule: sleeps.induct) auto

lemma consistent_append [simp]:
  "consistent E h (xs @ ys) = (consistent E h xs \<and> consistent E (h @ xs) ys)"
  by (induction E h xs rule: consistent.induct) auto

lemma replicate_pred: "0 < n \<Longrightarrow> x # replicate (n - Suc 0) x = replicate n x"
  by (cases n) auto

subsection \<open>The retrying executor\<close>

declare async_attempts.simps [simp del]

text \<open>
  The result the loop computes from the outcomes of its attempts: the first
  exception or zero exit ends it; after the last failed attempt the code behind the
  loop runs.
\<close>

lemma async_attempts_trace:
  "attempt \<le> max_retries \<Longrightarrow>
   \<exists>new. snd (async_attempts E command max_retries delay attempt prev h) = h @ new
     \<and> consistent E h new
     \<and> ran_cmds new = replicate (length (ran_outs new)) (Shell command)
     \<and> length (ran_outs new) \<le> max_retries - attempt
     \<and> sleeps new = replicate (length (ran_outs new) - 1) delay
     \<and> list_all failed_exit (butlast (ran_outs new))
     \<and> (attempt < max_retries \<longrightarrow> ran_outs new \<noteq> [])
     \<and> (ran_outs new = [] \<or> \<not> failed_exit (last (ran_outs new))
           \<or> length (ran_outs new) = max_retries - attempt)
     \<and> fst (async_attempts E command max_retries delay attempt prev h)
          = (if ran_outs new = [] then after_loop prev
             else (case last (ran_outs new) of
                     Fault e \<Rightarrow> Inl e
                   | Exited p \<Rightarrow>
                       if returncode p = 0
                       then Inr (strip (stdout p), strip (stderr p), returncode p)
                       else after_loop (Some p)))"
proof (induction E command max_retries delay attempt prev h rule: async_attempts.induct)
  case (1 E command max_retries delay attempt prev h)
  show ?case
  proof (cases "attempt < max_retries")
    case False
    then show ?thesis
      by (subst (1 2) async_attempts.simps) auto
  next
    case lt: True
    show ?thesis
    proof (cases "sh E h (Shell command)")
      case (Fault e)
      with lt show ?thesis
        by (subst (1 2) async_attempts.simps)
           (auto intro!: exI[of _ "[Ran (Shell command) (Fault e)]"])
    next
      case (Exited p)
      show ?thesis
      proof (cases "returncode p = 0")
        case True
        with lt Exited show ?thesis
          by (subst (1 2) async_attempts.simps)
             (auto simp: Let_def intro!: exI[of _ "[Ran (Shell command) (Exited p)]"])
      next
        case nz: False
        define h2 where "h2 = [Ran (Shell command) (Exited p),
            Logged (''Command failed (attempt '' @ show_nat (attempt + 1) @ ''): '' @ command),
            Logged (''Error: '' @ strip (stderr p))]"
        define h3 where "h3 = (if attempt < max_retries - 1
                           then h2 @ [Logged (''Retrying in '' @ show_nat delay @ '' seconds...''),
                                      Slept delay]
                           else h2)"
        have unfold: "async_attempts E command max_retries delay attempt prev h
            = async_attempts E command max_retries delay (Suc attempt) (Some p) (h @ h3)"
          using lt Exited nz
          by (subst async_attempts.simps) (simp add: Let_def h2_def h3_def)
        have le: "Suc attempt \<le> max_retries" using lt by simp
        have H3: "(if attempt < max_retries - 1
              then ((h @ [Ran (Shell command) (Exited p)]) @
                 [Logged (''Command failed (attempt '' @ show_nat (attempt + 1) @ ''): '' @ command),
                  Logged (''Error: '' @ strip (stderr p))]) @
                 [Logged (''Retrying in '' @ show_nat delay @ '' seconds...''), Slept delay]
              else (h @ [Ran (Shell command) (Exited p)]) @
                 [Logged (''Command failed (attempt '' @ show_nat (attempt + 1) @ ''): '' @ command),
                  Logged (''Error: '' @ strip (stderr p))]) = h @ h3"
          by (simp add: h3_def h2_def)
        note IH = "1.IH"[OF lt Exited refl nz refl refl le, unfolded H3]
        from IH obtain new where new:
          "snd (async_attempts E command max_retries delay (Suc attempt) (Some p) (h @ h3))
             = (h @ h3) @ new"
          "consistent E (h @ h3) new"
          "ran_cmds new = replicate (length (ran_outs new)) (Shell command)"
          "length (ran_outs new) \<le> max_retries - Suc attempt"
          "sleeps new = replicate (length (ran_outs new) - 1) delay"
          "list_all failed_exit (butlast (ran_outs new))"
          "Suc attempt < max_retries \<longrightarrow> ran_outs new \<noteq> []"
          "ran_outs new = [] \<or> \<not> failed_exit (last (ran_outs new))
             \<or> length (ran_outs new) = max_retries - Suc attempt"
          "fst (async_attempts E command max_retries delay (Suc attempt) (Some p) (h @ h3))
             = (if ran_outs new = [] then after_loop (Some p)
                else (case last (ran_outs new) of
                        Fault e \<Rightarrow> Inl e
                      | Exited q \<Rightarrow>
                          if returncode q = 0
                          then Inr (strip (stdout q), strip (stderr q), returncode q)
                          else after_loop (Some q)))"
          by blast
        have outs3: "ran_outs h3 = [Exited p]" "ran_cmds h3 = [Shell command]"
          by (simp_all add: h3_def h2_def)
        have cons3: "consistent E h h3"
          using Exited by (simp add: h3_def h2_def)
        have sl3: "sleeps h3 = (if attempt < max_retries - 1 then [delay] else [])"
          by (simp add: h3_def h2_def)
        show ?thesis
          unfolding unfold
          apply (rule exI[of _ "h3 @ new"])
          using new outs3 cons3 sl3 nz lt
          by (auto simp: replicate_pred)
      qed
    qed
  qed
qed


lemma async_default_trace:
  obtains new where
    "snd (run_az_command_async_default E command h) = h @ new"
    "consistent E h new"
    "ran_cmds new = replicate (length (ran_outs new)) (Shell command)"
    "length (ran_outs new) \<le> 3"
    "sleeps new = replicate (length (ran_outs new) - 1) 5"
    "list_all failed_exit (butlast (ran_outs new))"
    "ran_outs new \<noteq> []"
    "failed_exit (last (ran_outs new)) \<longrightarrow> length (ran_outs new) = 3"
    "fst (run_az_command_async_default E command h)
       = (case last (ran_outs new) of
            Fault e \<Rightarrow> Inl e
          | Exited p \<Rightarrow>
              if returncode p = 0
              then Inr (strip (stdout p), strip (stderr p), returncode p)
              else after_loop (Some p))"
proof -
  have run: "run_az_command_async_default E command h = async_attempts E command 3 5 0 None h"
    by (simp add: run_az_command_async_default_def run_az_command_async_def
          default_max_retries_def default_delay_def)
  have "\<exists>new. snd (async_attempts E command 3 5 0 None h) = h @ new
     \<and> consistent E h new
     \<and> ran_cmds new = replicate (length (ran_outs new)) (Shell command)
     \<and> length (ran_outs new) \<le> 3 - 0
     \<and> sleeps new = replicate (length (ran_outs new) - 1) 5
     \<and> list_all failed_exit (butlast (ran_outs new))
     \<and> ((0::nat) < 3 \<longrightarrow> ran_outs new \<noteq> [])
     \<and> (ran_outs new = [] \<or> \<not> failed_exit (last (ran_outs new))
           \<or> length (ran_outs new) = 3 - 0)
     \<and> fst (async_attempts E command 3 5 0 None h)
          = (if ran_outs new = [] then after_loop None
             else (case last (ran_outs new) of
                     Fault e \<Rightarrow> Inl e
                   | Exited p \<Rightarrow>
                       if returncode p = 0
                       then Inr (strip (stdout p), strip (stderr p), returncode p)
                       else after_loop (Some p)))"
    by (rule async_attempts_trace) simp
  then obtain new where
    a: "snd (async_attempts E command 3 5 0 None h) = h @ new"
    and b: "consistent E h new"
    and c: "ran_cmds new = replicate (length (ran_outs new)) (Shell command)"
    and d: "length (ran_outs new) \<le> 3 - 0"
    and e: "sleeps new = replicate (length (ran_outs new) - 1) 5"
    and f: "list_all failed_exit (butlast (ran_outs new))"
    and g: "(0::nat) < 3 \<longrightarrow> ran_outs new \<noteq> []"
    and i: "ran_outs new = [] \<or> \<not> failed_exit (last (ran_outs new))
           \<or> length (ran_outs new) = 3 - 0"
    and j: "fst (async_attempts E command 3 5 0 None h)
          = (if ran_outs new = [] then after_loop None
             else (case last (ran_outs new) of
                     Fault e \<Rightarrow> Inl e
                   | Exited p \<Rightarrow>
                       if returncode p = 0
                       then Inr (strip (stdout p), strip (stderr p), returncode p)
                       else after_loop (Some p)))"
    by (elim exE conjE)
  have ne: "ran_outs new \<noteq> []" using g by simp
  show thesis
  proof (rule that[of new])
    show "snd (run_az_command_async_default E command h) = h @ new" using a run by simp
    show "consistent E h new" by (rule b)
    show "ran_cmds new = replicate (length (ran_outs new)) (Shell command)" by (rule c)
    show "length (ran_outs new) \<le> 3" using d by simp
    show "sleeps new = replicate (length (ran_outs new) - 1) 5" by (rule e)
    show "list_all failed_exit (butlast (ran_outs new))" by (rule f)
    show "ran_outs new \<noteq> []" by (rule ne)
    show "failed_exit (last (ran_outs new)) \<longrightarrow> length (ran_outs new) = 3" using i ne by simp
    show "fst (run_az_command_async_default E command h)
       = (case last (ran_outs new) of
            Fault e \<Rightarrow> Inl e
          | Exited p \<Rightarrow>
              if returncode p = 0
              then Inr (strip (stdout p), strip (stderr p), returncode p)
              else after_loop (Some p))"
      using j ne run by simp
  qed
qed

text \<open>
  C5. The asynchronous executor with its defaults runs the command at least once
  and at most 3 times, always the same shell line, and sleeps 5 between two
  attempts and nowhere else. Every attempt but the last one made has failed with a
  non-zero exit code. If the last attempt made exits with code 0, the result is
  its stripped stdout and stderr and the code 0: the first zero exit code ends the
  run. If it exits non-zero, it is the third attempt and the result is an empty
  stdout with its stripped stderr and its return code. An exception of the
  subprocess call is not caught.
\<close>

theorem run_az_command_async_default_contract:
  "\<exists>new. snd (run_az_command_async_default E command h) = h @ new
     \<and> consistent E h new
     \<and> ran_cmds new = replicate (length (ran_outs new)) (Shell command)
     \<and> 1 \<le> length (ran_outs new) \<and> length (ran_outs new) \<le> 3
     \<and> sleeps new = replicate (length (ran_outs new) - 1) 5
     \<and> list_all failed_exit (butlast (ran_outs new))
     \<and> (failed_exit (last (ran_outs new)) \<longrightarrow> length (ran_outs new) = 3)
     \<and> fst (run_az_command_async_default E command h)
          = (case last (ran_outs new) of
               Fault e \<Rightarrow> Inl e
             | Exited p \<Rightarrow>
                 if returncode p = 0 then Inr (strip (stdout p), strip (stderr p), 0)
                 else Inr ('''', strip (stderr p), returncode p))"
proof -
  obtain new where new:
    "snd (run_az_command_async_default E command h) = h @ new"
    "consistent E h new"
    "ran_cmds new = replicate (length (ran_outs new)) (Shell command)"
    "length (ran_outs new) \<le> 3"
    "sleeps new = replicate (length (ran_outs new) - 1) 5"
    "list_all failed_exit (butlast (ran_outs new))"
    "ran_outs new \<noteq> []"
    "failed_exit (last (ran_outs new)) \<longrightarrow> length (ran_outs new) = 3"
    "fst (run_az_command_async_default E command h)
       = (case last (ran_outs new) of
            Fault e \<Rightarrow> Inl e
          | Exited p \<Rightarrow>
              if returncode p = 0
              then Inr (strip (stdout p), strip (stderr p), returncode p)
              else after_loop (Some p))"
    by (rule async_default_trace)
  have len: "1 \<le> length (ran_outs new)"
    using new(7) by (cases "ran_outs new") simp_all
  have res: "fst (run_az_command_async_default E command h)
          = (case last (ran_outs new) of
               Fault e \<Rightarrow> Inl e
             | Exited p \<Rightarrow>
                 if returncode p = 0 then Inr (strip (stdout p), strip (stderr p), 0)
                 else Inr ('''', strip (stderr p), returncode p))"
    unfolding new(9) by (cases "last (ran_outs new)") (simp_all add: after_loop_def)
  from new(1-6) len new(8) res show ?thesis by blast
qed


text \<open>
  The scenario of the claim: two failed attempts, then a success on the third. The
  result is the success, after two sleeps of 5.
\<close>

theorem run_az_command_async_default_witness:
  "fst (run_az_command_async_default flaky_env ''az vm list'' []) = Inr (''done'', '''', 0)
   \<and> ran_outs (snd (run_az_command_async_default flaky_env ''az vm list'' []))
       = [exit_with '''' '' busy '' 1, exit_with '''' '' busy '' 1, exit_with '' done '' '''' 0]
   \<and> sleeps (snd (run_az_command_async_default flaky_env ''az vm list'' [])) = [5, 5]"
  using run_az_command_async_default_contract[of flaky_env "''az vm list''" "[]"]
  by (simp add: run_az_command_async_default_def run_az_command_async_def
        default_max_retries_def default_delay_def async_attempts.simps flaky_env_def env_of_def
        exit_with_def Let_def strip_def is_space_def)


subsection \<open>The pre-flight worker\<close>

lemma split_on_nonempty [simp]: "split_on c s \<noteq> []"
  by (induction s) (auto split: list.splits)

text \<open>
  A snapshot that the pre-validation hands on as valid has at least 9 segments.
\<close>

lemma pre_validate_loop_valid:
  assumes worker:
    "\<And>snapshot_id h sub data h'.
        worker snapshot_id h = (Inr (sub, ''valid'', data), h') \<Longrightarrow> P snapshot_id"
  shows "x \<in> set (fst (fst (pre_validate_loop worker ids (valid, results) h)))
         \<Longrightarrow> x \<in> set valid \<or> P x"
proof (induction ids arbitrary: valid results h)
  case Nil
  then show ?case by simp
next
  case (Cons snapshot_id ids)
  obtain r h' where w: "worker snapshot_id h = (r, h')" by (metis prod.collapse)
  show ?case
  proof (cases r)
    case (Inl e)
    with Cons w show ?thesis by simp
  next
    case (Inr t)
    obtain sub status data where t: "t = (sub, status, data)" by (cases t)
    have P: "P snapshot_id" if "status = ''valid''"
      using worker[of snapshot_id h sub data h'] w Inr t that by simp
    show ?thesis
    proof (cases "sub = None \<or> sub = Some []")
      case True
      then have "pre_validate_loop worker (snapshot_id # ids) (valid, results) h
          = pre_validate_loop worker ids (valid, append_result ''Unknown'' status data results) h'"
        using w Inr t by auto
      with Cons show ?thesis by simp
    next
      case False
      then obtain n where n: "sub = Some n" "n \<noteq> []" by (cases sub) auto
      define valid' where
        "valid' = (if status = ''valid'' then valid @ [snapshot_id] else valid)"
      have "pre_validate_loop worker (snapshot_id # ids) (valid, results) h
          = pre_validate_loop worker ids (valid', append_result n status data results) h'"
        using w Inr t n by (simp add: valid'_def)
      with Cons.prems have "x \<in> set (fst (fst (pre_validate_loop worker ids
                                (valid', append_result n status data results) h')))"
        by simp
      from Cons.IH[OF this] have "x \<in> set valid' \<or> P x" .
      then show ?thesis using P by (auto simp: valid'_def split: if_splits)
    qed
  qed
qed

lemma valid_snapshots_well_formed:
  "x \<in> set (fst (fst (pre_validate_snapshots E snapshot_ids subscription_names h)))
     \<Longrightarrow> 9 \<le> length (split_on CHR ''/'' x)"
proof -
  assume x: "x \<in> set (fst (fst (pre_validate_snapshots E snapshot_ids subscription_names h)))"
  define worker where
    "worker = (\<lambda>snapshot_id h0.
        case process_snapshot E snapshot_id subscription_names h0 of
          (r, h') \<Rightarrow> (Inr r :: exn + outcome, h'))"
  have w: "9 \<le> length (split_on CHR ''/'' snapshot_id)"
    if "worker snapshot_id h0 = (Inr (sub, ''valid'', data), h')"
    for snapshot_id h0 sub data h'
    using that
    by (auto simp: worker_def process_snapshot_def process_snapshot_body_def Let_def
          check_snapshot_exists_def split: prod.splits sum.splits if_splits)
  from x have "x \<in> set (fst (fst (pre_validate_loop worker (as_completed E snapshot_ids)
                                     ([], []) h)))"
    by (simp add: pre_validate_snapshots_def pre_validate_with_def worker_def)
  from pre_validate_loop_valid[of worker "\<lambda>s. 9 \<le> length (split_on CHR ''/'' s)", OF w this]
  show ?thesis by simp
qed

text \<open>
  C6. An identifier with fewer than 9 slash-separated segments: the body of the
  pre-flight worker raises nothing and runs no command, and the worker returns the
  status \<open>invalid\<close> (not \<open>valid\<close>, not \<open>non-existent\<close>) with the identifier and the
  text "Invalid snapshot ID format", under no subscription name. In a batch, such
  an identifier is never among the snapshots handed on as valid.
\<close>

theorem process_snapshot_short_identifier:
  "length (split_on CHR ''/'' snapshot_id) < 9 \<Longrightarrow>
     process_snapshot_body E snapshot_id subscription_names h
       = (Inr (None, ''invalid'', Detail snapshot_id ''Invalid snapshot ID format''), h)
     \<and> process_snapshot E snapshot_id subscription_names h
       = ((None, ''invalid'', Detail snapshot_id ''Invalid snapshot ID format''), h)
     \<and> fst (snd (fst (process_snapshot E snapshot_id subscription_names h))) \<noteq> ''valid''
     \<and> fst (snd (fst (process_snapshot E snapshot_id subscription_names h))) \<noteq> ''non-existent''
     \<and> snapshot_id \<notin> set (fst (fst (pre_validate_snapshots E snapshot_ids subscription_names h0)))"
  using valid_snapshots_well_formed[of snapshot_id E snapshot_ids subscription_names h0]
  by (auto simp: process_snapshot_def process_snapshot_body_def Let_def)

theorem process_snapshot_short_identifier_witness:
  "length (split_on CHR ''/'' ''/subscriptions/S1/snapshots/a'') < 9
   \<and> process_snapshot calm_env ''/subscriptions/S1/snapshots/a'' Map.empty []
       = ((None, ''invalid'',
           Detail ''/subscriptions/S1/snapshots/a'' ''Invalid snapshot ID format''), [])
   \<and> fst (fst (pre_validate_snapshots calm_env [''/subscriptions/S1/snapshots/a'', snap_a]
                  Map.empty []))
       = [snap_a]"
proof -
  have short: "length (split_on CHR ''/'' ''/subscriptions/S1/snapshots/a'') < 9"
    by simp
  have batch: "fst (fst (pre_validate_snapshots calm_env [''/subscriptions/S1/snapshots/a'', snap_a]
                  Map.empty []))
       = [snap_a]"
    by code_simp
  from process_snapshot_short_identifier[OF short, where E = calm_env
      and subscription_names = Map.empty and h = "[]"] short batch
  show ?thesis by simp
qed

text \<open>
  C10. The pre-flight worker always returns one triple. If the body of its \<^verbatim>\<open>try\<close>
  raises, the triple is \<open>(None, error, (identifier, str(e)))\<close>; otherwise it is the
  triple of the body, whose status is \<open>invalid\<close>, \<open>non-existent\<close> or \<open>valid\<close>. The worker
  itself has no exceptional result.
\<close>

theorem process_snapshot_total:
  "(case process_snapshot_body E snapshot_id subscription_names h of
      (Inl e, h') \<Rightarrow>
        process_snapshot E snapshot_id subscription_names h
          = ((None, ''error'', Detail snapshot_id (exn_str e)), h')
    | (Inr r, h') \<Rightarrow>
        process_snapshot E snapshot_id subscription_names h = (r, h')
        \<and> fst (snd r) \<in> {''invalid'', ''non-existent'', ''valid''})
   \<and> fst (snd (fst (process_snapshot E snapshot_id subscription_names h)))
        \<in> {''invalid'', ''non-existent'', ''valid'', ''error''}"
  by (auto simp: process_snapshot_def process_snapshot_body_def Let_def
        check_snapshot_exists_def split: prod.splits sum.splits)

theorem process_snapshot_total_witness:
  "process_snapshot raising_env ''/subscriptions/S1/resourceGroups/RG1/providers/Microsoft.Compute/snapshots/snapA'' Map.empty []
     = ((None, ''error'',
         Detail ''/subscriptions/S1/resourceGroups/RG1/providers/Microsoft.Compute/snapshots/snapA'' ''boom''),
        [Ran (Shell ''az snapshot show --ids /subscriptions/S1/resourceGroups/RG1/providers/Microsoft.Compute/snapshots/snapA'')
             (Fault (Exn CalledProcessError ''boom''))])"
  using process_snapshot_total[of raising_env
      "''/subscriptions/S1/resourceGroups/RG1/providers/Microsoft.Compute/snapshots/snapA''"
      Map.empty "[]"]
  by (simp add: process_snapshot_def process_snapshot_body_def Let_def check_snapshot_exists_def
        run_az_command_def az_result_def raising_env_def env_of_def)


subsection \<open>The aggregate\<close>

lemma map_of_dict_set: "map_of (dict_set k v d) k' = (if k' = k then Some v else map_of d k')"
  by (induction d) auto

lemma set_dict_set: "set (dict_set k v d) \<subseteq> insert (k, v) (set d)"
  by (induction d) (auto split: if_splits)

lemma bucket_of_dict_set:
  "bucket_of (dict_set s' b data) s = (if s = s' then b else bucket_of data s)"
  by (simp add: bucket_of_def map_of_dict_set)

lemma inner_of_dict_set:
  "inner_of (dict_set k v results) k' = (if k' = k then v else inner_of results k')"
  by (simp add: inner_of_def map_of_dict_set)

lemma status_total_dict_set:
  "status_total s (dict_set k v results) + length (bucket_of (inner_of results k) s)
     = status_total s results + length (bucket_of v s)"
proof (induction results)
  case Nil
  show ?case by (simp add: status_total_def inner_of_def bucket_of_def)
next
  case (Cons entry results)
  obtain k' v' where entry: "entry = (k', v')" by (cases entry)
  show ?case
  proof (cases "k' = k")
    case True
    then show ?thesis by (simp add: entry status_total_def inner_of_def)
  next
    case False
    with Cons.IH show ?thesis by (simp add: entry status_total_def inner_of_def)
  qed
qed

lemma status_total_append_result:
  "status_total s (append_result key s' data results)
     = status_total s results + (if s = s' then 1 else 0)"
  using status_total_dict_set[of s key
      "dict_set s' (bucket_of (inner_of results key) s' @ [data]) (inner_of results key)" results]
  by (cases "s = s'") (simp_all add: append_result_def Let_def bucket_of_dict_set)

lemma summary_totals_status:
  "summary_totals results (a, b, c, d)
     = (a + status_total ''valid'' results, b + status_total ''non-existent'' results,
        c + status_total ''deleted'' results, d + status_total ''failed'' results)"
  by (induction results arbitrary: a b c d) (auto simp: status_total_def summary_row_def)

lemma print_summary_status:
  "print_summary results
     = (status_total ''valid'' results, status_total ''non-existent'' results,
        status_total ''deleted'' results, status_total ''failed'' results)"
  by (simp add: print_summary_def summary_totals_status)

text \<open>What \<open>update\<close> and the merge leave alone: a status the other side does not have.\<close>

lemma bucket_of_dict_update:
  "s \<notin> fst ` set other \<Longrightarrow> bucket_of (dict_update d other) s = bucket_of d s"
  unfolding dict_update_def
  by (induction other arbitrary: d) (auto simp: bucket_of_dict_set)

lemma status_total_merge_results:
  "statuses_within S deletion \<Longrightarrow> s \<notin> S \<Longrightarrow>
     status_total s (merge_results pre deletion) = status_total s pre"
  unfolding merge_results_def
proof (induction deletion arbitrary: pre)
  case Nil
  then show ?case by simp
next
  case (Cons entry deletion)
  obtain sub data where entry: "entry = (sub, data)" by (cases entry)
  from Cons.prems have notin: "s \<notin> fst ` set data" and rest: "statuses_within S deletion"
    by (auto simp: statuses_within_def entry)
  have "status_total s (dict_set sub (dict_update (inner_of pre sub) data) pre) = status_total s pre"
    using status_total_dict_set[of s sub "dict_update (inner_of pre sub) data" pre]
    by (simp add: bucket_of_dict_update[OF notin])
  with Cons.IH[OF rest Cons.prems(2)] show ?case by (simp add: entry)
qed

lemma statuses_withinD:
  "statuses_within S results \<Longrightarrow> (key, data) \<in> set results \<Longrightarrow> fst ` set data \<subseteq> S"
  unfolding statuses_within_def by (drule (1) bspec) simp

lemma statuses_within_append_result:
  assumes within: "statuses_within S results" and st: "status \<in> S"
  shows "statuses_within S (append_result key status data results)"
proof -
  define inner where "inner = inner_of results key"
  define inner' where "inner' = dict_set status (bucket_of inner status @ [data]) inner"
  have inner: "fst ` set inner \<subseteq> S"
  proof (cases "map_of results key")
    case None
    then show ?thesis by (simp add: inner_def inner_of_def)
  next
    case (Some d)
    then have "(key, d) \<in> set results" by (rule map_of_SomeD)
    with within have "fst ` set d \<subseteq> S" by (rule statuses_withinD)
    with Some show ?thesis by (simp add: inner_def inner_of_def)
  qed
  have "set inner' \<subseteq> insert (status, bucket_of inner status @ [data]) (set inner)"
    unfolding inner'_def by (rule set_dict_set)
  then have "fst ` set inner' \<subseteq> insert status (fst ` set inner)"
    by (metis image_insert image_mono fst_conv)
  with inner st have inner': "fst ` set inner' \<subseteq> S" by blast
  have sub: "set (dict_set key inner' results) \<subseteq> insert (key, inner') (set results)"
    by (rule set_dict_set)
  have "fst ` set d \<subseteq> S" if "(k, d) \<in> set (dict_set key inner' results)" for k d
  proof -
    from that sub have "(k, d) = (key, inner') \<or> (k, d) \<in> set results" by auto
    then show ?thesis
    proof
      assume "(k, d) = (key, inner')"
      with inner' show ?thesis by simp
    next
      assume "(k, d) \<in> set results"
      with within show ?thesis by (rule statuses_withinD)
    qed
  qed
  then have "statuses_within S (dict_set key inner' results)"
    unfolding statuses_within_def by (simp add: split_beta) (metis prod.collapse)
  then show ?thesis by (simp add: append_result_def Let_def inner_def inner'_def)
qed


subsection \<open>The merge on the delete path\<close>

lemma keys_dict_set: "fst ` set (dict_set k v d) = insert k (fst ` set d)"
proof (induction d)
  case Nil
  show ?case by simp
next
  case (Cons entry d)
  obtain k' v' where entry: "entry = (k', v')" by (cases entry)
  show ?case
  proof (cases "k' = k")
    case True
    then show ?thesis by (simp add: entry)
  next
    case False
    then show ?thesis using Cons.IH by (simp add: entry insert_commute)
  qed
qed

lemma distinct_dict_set: "distinct (map fst d) \<Longrightarrow> distinct (map fst (dict_set k v d))"
  by (induction d) (auto simp: keys_dict_set)

lemma dict_okD:
  "dict_ok results \<Longrightarrow> (key, data) \<in> set results \<Longrightarrow> distinct (map fst data)"
  unfolding dict_ok_def by (elim conjE, drule (1) bspec) simp

lemma distinct_inner_of: "dict_ok results \<Longrightarrow> distinct (map fst (inner_of results key))"
proof (cases "map_of results key")
  case None
  then show ?thesis by (simp add: inner_of_def)
next
  case (Some d)
  assume ok: "dict_ok results"
  from Some have "(key, d) \<in> set results" by (rule map_of_SomeD)
  with ok have "distinct (map fst d)" by (rule dict_okD)
  with Some show ?thesis by (simp add: inner_of_def)
qed

lemma dict_ok_append_result:
  assumes ok: "dict_ok results"
  shows "dict_ok (append_result key status data results)"
proof -
  define inner' where
    "inner' = dict_set status (bucket_of (inner_of results key) status @ [data])
                (inner_of results key)"
  have d': "distinct (map fst inner')"
    unfolding inner'_def using distinct_inner_of[OF ok] by (rule distinct_dict_set)
  have keys: "distinct (map fst (dict_set key inner' results))"
    using ok by (intro distinct_dict_set) (simp add: dict_ok_def)
  have "distinct (map fst d)" if "(k, d) \<in> set (dict_set key inner' results)" for k d
  proof -
    from that set_dict_set[of key inner' results]
    have "(k, d) = (key, inner') \<or> (k, d) \<in> set results" by auto
    then show ?thesis
    proof
      assume "(k, d) = (key, inner')"
      with d' show ?thesis by simp
    next
      assume "(k, d) \<in> set results"
      with ok show ?thesis by (rule dict_okD)
    qed
  qed
  with keys have "dict_ok (dict_set key inner' results)"
    unfolding dict_ok_def by (simp add: split_beta) (metis prod.collapse)
  then show ?thesis by (simp add: append_result_def Let_def inner'_def)
qed

lemma bucket_of_dict_update_distinct:
  "distinct (map fst other) \<Longrightarrow>
     bucket_of (dict_update d other) s
       = (case map_of other s of Some b \<Rightarrow> b | None \<Rightarrow> bucket_of d s)"
  unfolding dict_update_def
proof (induction other arbitrary: d)
  case Nil
  show ?case by simp
next
  case (Cons entry other)
  obtain k v where entry: "entry = (k, v)" by (cases entry)
  from Cons.prems have notin: "k \<notin> fst ` set other" and rest: "distinct (map fst other)"
    by (simp_all add: entry)
  from notin have none: "map_of other k = None" by (simp add: map_of_eq_None_iff)
  show ?case
    using Cons.IH[OF rest, of "dict_set k v d"] none
    by (auto simp: entry bucket_of_dict_set split: option.splits)
qed

lemma inner_of_merge_results:
  "distinct (map fst deletion) \<Longrightarrow>
     inner_of (merge_results pre deletion) key
       = (case map_of deletion key of
            Some data \<Rightarrow> dict_update (inner_of pre key) data
          | None \<Rightarrow> inner_of pre key)"
  unfolding merge_results_def
proof (induction deletion arbitrary: pre)
  case Nil
  show ?case by simp
next
  case (Cons entry deletion)
  obtain sub data where entry: "entry = (sub, data)" by (cases entry)
  from Cons.prems have notin: "sub \<notin> fst ` set deletion" and rest: "distinct (map fst deletion)"
    by (simp_all add: entry)
  from notin have none: "map_of deletion sub = None" by (simp add: map_of_eq_None_iff)
  show ?case
    using Cons.IH[OF rest, of "dict_set sub (dict_update (inner_of pre sub) data) pre"] none
    by (auto simp: entry inner_of_dict_set split: option.splits)
qed

lemma empty_bucket_outside:
  assumes "statuses_within A results" and "s \<notin> A"
  shows "bucket_of (inner_of results key) s = []"
proof (cases "map_of results key")
  case None
  then show ?thesis by (simp add: inner_of_def bucket_of_def)
next
  case (Some d)
  then have "(key, d) \<in> set results" by (rule map_of_SomeD)
  with assms(1) have "fst ` set d \<subseteq> A" by (rule statuses_withinD)
  with assms(2) have "s \<notin> fst ` set d" by blast
  then have "map_of d s = None" by (simp add: map_of_eq_None_iff)
  with Some show ?thesis by (simp add: inner_of_def bucket_of_def)
qed

text \<open>
  Two aggregates that share no status: every bucket of the merge is the bucket of
  the first followed by the bucket of the second.
\<close>

lemma merge_results_buckets:
  assumes ok: "dict_ok deletion"
    and pre: "statuses_within A pre" and del: "statuses_within B deletion"
    and disjoint: "A \<inter> B = {}"
  shows "bucket_of (inner_of (merge_results pre deletion) key) s
           = bucket_of (inner_of pre key) s @ bucket_of (inner_of deletion key) s"
proof -
  from ok have keys: "distinct (map fst deletion)" by (simp add: dict_ok_def)
  show ?thesis
  proof (cases "map_of deletion key")
    case None
    then have "inner_of (merge_results pre deletion) key = inner_of pre key"
      by (simp add: inner_of_merge_results[OF keys])
    moreover from None have "inner_of deletion key = []" by (simp add: inner_of_def)
    ultimately show ?thesis by (simp add: bucket_of_def)
  next
    case (Some data)
    then have mem: "(key, data) \<in> set deletion" by (rule map_of_SomeD)
    with ok have dd: "distinct (map fst data)" by (rule dict_okD)
    from del mem have within: "fst ` set data \<subseteq> B" by (rule statuses_withinD)
    have inner: "inner_of deletion key = data" using Some by (simp add: inner_of_def)
    have merged: "inner_of (merge_results pre deletion) key = dict_update (inner_of pre key) data"
      using Some by (simp add: inner_of_merge_results[OF keys])
    have upd: "bucket_of (dict_update (inner_of pre key) data) s
                 = (case map_of data s of Some b \<Rightarrow> b | None \<Rightarrow> bucket_of (inner_of pre key) s)"
      using dd by (rule bucket_of_dict_update_distinct)
    show ?thesis
    proof (cases "map_of data s")
      case None
      then have "bucket_of data s = []" by (simp add: bucket_of_def)
      with None show ?thesis by (simp add: merged upd inner)
    next
      case b: (Some b)
      then have "(s, b) \<in> set data" by (rule map_of_SomeD)
      then have "s \<in> fst ` set data" by force
      with within disjoint have "s \<notin> A" by blast
      with pre have "bucket_of (inner_of pre key) s = []" by (rule empty_bucket_outside)
      moreover from b have "bucket_of data s = b" by (simp add: bucket_of_def)
      ultimately show ?thesis using b by (simp add: merged upd inner)
    qed
  qed
qed


subsection \<open>The dispatchers\<close>

lemma process_snapshot_status:
  "fst (snd (fst (process_snapshot E snapshot_id subscription_names h)))
     \<in> {''valid'', ''non-existent'', ''invalid'', ''error''}"
  by (auto simp: process_snapshot_def process_snapshot_body_def Let_def
        check_snapshot_exists_def split: prod.splits sum.splits)

text \<open>
  The four pre-validation statuses of an aggregate, counted over all grouping
  keys: every future that returns a triple adds one to their sum.
\<close>

lemma pre_validate_loop_count:
  assumes worker:
    "\<And>snapshot_id h. \<exists>sub status data h'.
        worker snapshot_id h = (Inr (sub, status, data), h')
        \<and> status \<in> {''valid'', ''non-existent'', ''invalid'', ''error''}"
  shows "(let results' = snd (fst (pre_validate_loop worker ids (valid, results) h))
          in status_total ''valid'' results' + status_total ''non-existent'' results'
             + status_total ''invalid'' results' + status_total ''error'' results')
         = status_total ''valid'' results + status_total ''non-existent'' results
             + status_total ''invalid'' results + status_total ''error'' results + length ids"
proof (induction ids arbitrary: valid results h)
  case Nil
  show ?case by simp
next
  case (Cons snapshot_id ids)
  from worker[of snapshot_id h] obtain sub status data h' where
    w: "worker snapshot_id h = (Inr (sub, status, data), h')"
    and st: "status \<in> {''valid'', ''non-existent'', ''invalid'', ''error''}"
    by blast
  have one: "status_total ''valid'' (append_result key status data results)
        + status_total ''non-existent'' (append_result key status data results)
        + status_total ''invalid'' (append_result key status data results)
        + status_total ''error'' (append_result key status data results)
      = status_total ''valid'' results + status_total ''non-existent'' results
        + status_total ''invalid'' results + status_total ''error'' results + 1" for key
    using st by (auto simp: status_total_append_result)
  show ?case
  proof (cases sub)
    case None
    show ?thesis
      using Cons.IH[of valid "append_result ''Unknown'' status data results" h'] one[of "''Unknown''"]
      by (simp add: w None Let_def)
  next
    case (Some n)
    show ?thesis
    proof (cases "n = []")
      case True
      show ?thesis
        using Cons.IH[of valid "append_result ''Unknown'' status data results" h']
          one[of "''Unknown''"]
        by (simp add: w Some True Let_def)
    next
      case False
      show ?thesis
        using Cons.IH[of "if status = ''valid'' then valid @ [snapshot_id] else valid"
            "append_result n status data results" h'] one[of n]
        by (simp add: w Some False Let_def)
    qed
  qed
qed

lemma delete_loop_statuses:
  "statuses_within {''deleted'', ''failed'', ''error''} results \<Longrightarrow>
     statuses_within {''deleted'', ''failed'', ''error''}
       (fst (delete_loop worker subscription_names ids results h))"
proof (induction ids arbitrary: results h)
  case Nil
  then show ?case by simp
next
  case (Cons snapshot_id ids)
  have step: "statuses_within {''deleted'', ''failed'', ''error''}
                (append_result key status data results)"
    if "status \<in> {''deleted'', ''failed'', ''error''}" for key status data
    using Cons.prems that by (rule statuses_within_append_result)
  show ?case
    by (cases "worker snapshot_id h")
       (auto simp: Let_def split: sum.splits intro!: Cons.IH step)
qed


lemma pre_validate_snapshots_count:
  "length (as_completed E snapshot_ids) = length snapshot_ids \<Longrightarrow>
   (let pre = snd (fst (pre_validate_snapshots E snapshot_ids subscription_names h))
    in status_total ''valid'' pre + status_total ''non-existent'' pre
       + status_total ''invalid'' pre + status_total ''error'' pre)
   = length snapshot_ids"
proof -
  assume len: "length (as_completed E snapshot_ids) = length snapshot_ids"
  define worker where
    "worker = (\<lambda>snapshot_id h0.
        case process_snapshot E snapshot_id subscription_names h0 of
          (r, h') \<Rightarrow> (Inr r :: exn + outcome, h'))"
  have w: "\<exists>sub status data h'.
        worker snapshot_id h0 = (Inr (sub, status, data), h')
        \<and> status \<in> {''valid'', ''non-existent'', ''invalid'', ''error''}" for snapshot_id h0
    using process_snapshot_status[of E snapshot_id subscription_names h0]
    by (cases "process_snapshot E snapshot_id subscription_names h0")
       (auto simp: worker_def)
  have "status_total s [] = 0" for s by (simp add: status_total_def)
  with pre_validate_loop_count[of worker "as_completed E snapshot_ids" "[]" "[]" h, OF w] len
  show ?thesis
    by (simp add: pre_validate_snapshots_def pre_validate_with_def worker_def)
qed

lemma delete_snapshots_keeps_pre_validation:
  assumes run: "fst (delete_snapshots E snapshot_ids subscription_names h) = Inr results"
    and s: "s \<notin> {''deleted'', ''failed'', ''error''}"
  shows "status_total s results
     = status_total s (snd (fst (pre_validate_snapshots E snapshot_ids subscription_names h)))"
proof -
  obtain valid pre h1 where
    pv: "pre_validate_snapshots E snapshot_ids subscription_names h = ((valid, pre), h1)"
    by (metis prod.collapse)
  show ?thesis
  proof (cases "valid = []")
    case True
    with run pv show ?thesis by (simp add: delete_snapshots_def)
  next
    case False
    have within: "statuses_within {''deleted'', ''failed'', ''error''}
             (fst (delete_valid_snapshots E valid subscription_names h2))" for h2
      unfolding delete_valid_snapshots_def delete_valid_with_def
      by (rule delete_loop_statuses) (simp add: statuses_within_def)
    from run pv False have
      "\<exists>h2. results
         = merge_results pre (fst (delete_valid_snapshots E valid subscription_names h2))"
      by (auto simp: delete_snapshots_def Let_def split: prod.splits sum.splits)
         (metis fst_conv)
    then obtain h2 where
      "results = merge_results pre (fst (delete_valid_snapshots E valid subscription_names h2))"
      ..
    with status_total_merge_results[OF within s] pv show ?thesis by simp
  qed
qed

text \<open>
  C2, as amended. Every submitted identifier has exactly one outcome in the
  pre-validation aggregate: over all grouping keys, its \<open>valid\<close>, \<open>non-existent\<close>,
  \<open>invalid\<close> and \<open>error\<close> buckets together hold as many payloads as the input list has
  identifiers (\<^verbatim>\<open>as_completed\<close> yields one future per identifier). When the pipeline
  returns its final aggregate, the merge has kept the \<open>valid\<close>, \<open>non-existent\<close> and
  \<open>invalid\<close> counts, and the totals row of the summary is the \<open>valid\<close> and
  \<open>non-existent\<close> counts of the pre-validation beside the \<open>deleted\<close> and \<open>failed\<close> counts
  of the deletion pass.
\<close>

theorem delete_pipeline_outcome_counts:
  assumes "length (as_completed E snapshot_ids) = length snapshot_ids"
  shows "(let pre = snd (fst (pre_validate_snapshots E snapshot_ids subscription_names h))
          in status_total ''valid'' pre + status_total ''non-existent'' pre
               + status_total ''invalid'' pre + status_total ''error'' pre
             = length snapshot_ids
           \<and> (\<forall>results.
                 fst (delete_snapshots E snapshot_ids subscription_names h) = Inr results \<longrightarrow>
                   status_total ''valid'' results = status_total ''valid'' pre
                   \<and> status_total ''non-existent'' results = status_total ''non-existent'' pre
                   \<and> status_total ''invalid'' results = status_total ''invalid'' pre
                   \<and> print_summary results
                       = (status_total ''valid'' pre, status_total ''non-existent'' pre,
                          status_total ''deleted'' results, status_total ''failed'' results)))"
proof -
  have keep: "status_total s results
       = status_total s (snd (fst (pre_validate_snapshots E snapshot_ids subscription_names h)))"
    if "fst (delete_snapshots E snapshot_ids subscription_names h) = Inr results"
      and "s \<in> {''valid'', ''non-existent'', ''invalid''}" for s results
    using that by (intro delete_snapshots_keeps_pre_validation) auto
  show ?thesis
    using pre_validate_snapshots_count[OF assms, of subscription_names h]
    by (auto simp: Let_def print_summary_status keep)
qed

theorem delete_pipeline_outcome_counts_witness:
  "length (as_completed tidy_env [snap_a, ''bad'']) = length [snap_a, ''bad'']
   \<and> snd (fst (pre_validate_snapshots tidy_env [snap_a, ''bad''] Map.empty []))
       = [(''S1'', [(''valid'', [Name ''a''])]),
          (''Unknown'', [(''invalid'', [Detail ''bad'' ''Invalid snapshot ID format''])])]
   \<and> fst (delete_snapshots tidy_env [snap_a, ''bad''] Map.empty [])
       = Inr [(''S1'', [(''valid'', [Name ''a'']), (''deleted'', [Name ''a''])]),
              (''Unknown'', [(''invalid'', [Detail ''bad'' ''Invalid snapshot ID format''])])]
   \<and> print_summary [(''S1'', [(''valid'', [Name ''a'']), (''deleted'', [Name ''a''])]),
              (''Unknown'', [(''invalid'', [Detail ''bad'' ''Invalid snapshot ID format''])])]
       = (1, 0, 1, 0)"
proof -
  have len: "length (as_completed tidy_env [snap_a, ''bad'']) = length [snap_a, ''bad'']"
    by (simp add: tidy_env_def env_of_def)
  have pre: "snd (fst (pre_validate_snapshots tidy_env [snap_a, ''bad''] Map.empty []))
       = [(''S1'', [(''valid'', [Name ''a''])]),
          (''Unknown'', [(''invalid'', [Detail ''bad'' ''Invalid snapshot ID format''])])]"
    by code_simp
  have run: "fst (delete_snapshots tidy_env [snap_a, ''bad''] Map.empty [])
       = Inr [(''S1'', [(''valid'', [Name ''a'']), (''deleted'', [Name ''a''])]),
              (''Unknown'', [(''invalid'', [Detail ''bad'' ''Invalid snapshot ID format''])])]"
    by code_simp
  have counts: "status_total ''valid'' [(''S1'', [(''valid'', [Name ''a''])]),
          (''Unknown'', [(''invalid'', [Detail ''bad'' ''Invalid snapshot ID format''])])] = 1"
    "status_total ''non-existent'' [(''S1'', [(''valid'', [Name ''a''])]),
          (''Unknown'', [(''invalid'', [Detail ''bad'' ''Invalid snapshot ID format''])])] = 0"
    "status_total ''deleted'' [(''S1'', [(''valid'', [Name ''a'']), (''deleted'', [Name ''a''])]),
              (''Unknown'', [(''invalid'', [Detail ''bad'' ''Invalid snapshot ID format''])])] = 1"
    "status_total ''failed'' [(''S1'', [(''valid'', [Name ''a'']), (''deleted'', [Name ''a''])]),
              (''Unknown'', [(''invalid'', [Detail ''bad'' ''Invalid snapshot ID format''])])] = 0"
    by (simp_all add: status_total_def bucket_of_def)
  from delete_pipeline_outcome_counts[OF len, of Map.empty "[]"] pre run counts len
  show ?thesis by (simp add: Let_def)
qed


text \<open>
  C2 as stated fails. A list with one malformed identifier gives a totals row of
  four zeros, since the summary has no column for the \<open>invalid\<close> bucket. A list
  with one existing snapshot that is then deleted gives a totals row with one
  \<open>valid\<close> and one \<open>deleted\<close>: the row sums to 2.
\<close>

theorem summary_totals_counterexample:
  "fst (delete_snapshots calm_env [''bad''] Map.empty [])
     = Inr [(''Unknown'', [(''invalid'', [Detail ''bad'' ''Invalid snapshot ID format''])])]
   \<and> print_summary [(''Unknown'', [(''invalid'', [Detail ''bad'' ''Invalid snapshot ID format''])])]
     = (0, 0, 0, 0)
   \<and> totals_sum (0, 0, 0, 0) \<noteq> length [''bad'']
   \<and> fst (delete_snapshots tidy_env [snap_a] Map.empty [])
     = Inr [(''S1'', [(''valid'', [Name ''a'']), (''deleted'', [Name ''a''])])]
   \<and> print_summary [(''S1'', [(''valid'', [Name ''a'']), (''deleted'', [Name ''a''])])]
     = (1, 0, 1, 0)
   \<and> totals_sum (1, 0, 1, 0) \<noteq> length [snap_a]"
  by code_simp

subsection \<open>Both passes in the merged aggregate\<close>

lemma dict_ok_empty: "dict_ok []"
  by (simp add: dict_ok_def)

lemma statuses_within_empty: "statuses_within S []"
  by (simp add: statuses_within_def)

lemma delete_loop_dict_ok:
  "dict_ok results \<Longrightarrow> dict_ok (fst (delete_loop worker subscription_names ids results h))"
proof (induction ids arbitrary: results h)
  case Nil
  then show ?case by simp
next
  case (Cons snapshot_id ids)
  have step: "dict_ok (append_result key status data results)" for key status data
    using Cons.prems by (rule dict_ok_append_result)
  show ?case
    by (cases "worker snapshot_id h")
       (auto simp: Let_def split: sum.splits intro!: Cons.IH step)
qed

lemma pre_validate_loop_statuses:
  assumes worker:
    "\<And>snapshot_id h sub status data h'.
        worker snapshot_id h = (Inr (sub, status, data), h') \<Longrightarrow> status \<in> S"
  shows "statuses_within S results \<Longrightarrow>
     statuses_within S (snd (fst (pre_validate_loop worker ids (valid, results) h)))"
proof (induction ids arbitrary: valid results h)
  case Nil
  then show ?case by simp
next
  case (Cons snapshot_id ids)
  show ?case
  proof (cases "worker snapshot_id h")
    case (Pair r h')
    show ?thesis
    proof (cases r)
      case (Inl e)
      with Pair Cons.prems show ?thesis by (simp add: Cons.IH)
    next
      case (Inr triple)
      obtain sub status data where triple: "triple = (sub, status, data)" by (cases triple)
      from worker[of snapshot_id h sub status data h'] Pair Inr triple have "status \<in> S" by simp
      with Cons.prems have step: "statuses_within S (append_result key status data results)" for key
        by (rule statuses_within_append_result)
      show ?thesis
      proof (cases sub)
        case None
        show ?thesis
          using Cons.IH[OF step[of "''Unknown''"], of valid h']
          by (simp add: Pair Inr triple None)
      next
        case (Some n)
        show ?thesis
        proof (cases "n = []")
          case True
          show ?thesis
            using Cons.IH[OF step[of "''Unknown''"], of valid h']
            by (simp add: Pair Inr triple Some True)
        next
          case False
          show ?thesis
            using Cons.IH[OF step[of n],
                of "if status = ''valid'' then valid @ [snapshot_id] else valid" h']
            by (simp add: Pair Inr triple Some False)
        qed
      qed
    qed
  qed
qed

lemma process_snapshot_status_caught:
  assumes "shell_faults_caught E"
  shows "fst (snd (fst (process_snapshot E snapshot_id subscription_names h)))
           \<in> {''valid'', ''non-existent'', ''invalid''}"
proof -
  have "az_result E (Shell line) (sh E h0 (Shell line)) \<noteq> Inl e" for line h0 e
    using assms
    by (auto simp: az_result_def shell_faults_caught_def split: sh_out.splits)
  then show ?thesis
    by (auto simp: process_snapshot_def process_snapshot_body_def Let_def
          check_snapshot_exists_def run_az_command_def split: prod.splits sum.splits)
qed

lemma pre_validate_snapshots_statuses:
  assumes "shell_faults_caught E"
  shows "statuses_within {''valid'', ''non-existent'', ''invalid''}
           (snd (fst (pre_validate_snapshots E snapshot_ids subscription_names h)))"
  unfolding pre_validate_snapshots_def pre_validate_with_def
proof (rule pre_validate_loop_statuses)
  fix snapshot_id h0 sub status data h'
  assume "(case process_snapshot E snapshot_id subscription_names h0 of
             (r, h') \<Rightarrow> (Inr r :: exn + outcome, h')) = (Inr (sub, status, data), h')"
  then have "fst (snd (fst (process_snapshot E snapshot_id subscription_names h0))) = status"
    by (auto split: prod.splits)
  with process_snapshot_status_caught[OF assms, of snapshot_id subscription_names h0]
  show "status \<in> {''valid'', ''non-existent'', ''invalid''}" by simp
next
  show "statuses_within {''valid'', ''non-existent'', ''invalid''} []"
    by (rule statuses_within_empty)
qed

lemma delete_valid_snapshots_shape:
  "dict_ok (fst (delete_valid_snapshots E valid_snapshots subscription_names h))"
  "statuses_within {''deleted'', ''failed'', ''error''}
     (fst (delete_valid_snapshots E valid_snapshots subscription_names h))"
  unfolding delete_valid_snapshots_def delete_valid_with_def
  by (rule delete_loop_dict_ok, rule dict_ok_empty)
     (rule delete_loop_statuses, rule statuses_within_empty)

lemma delete_snapshots_merge:
  assumes run: "fst (delete_snapshots E snapshot_ids subscription_names h) = Inr results"
    and valid: "fst (fst (pre_validate_snapshots E snapshot_ids subscription_names h)) \<noteq> []"
  shows "results
     = merge_results (snd (fst (pre_validate_snapshots E snapshot_ids subscription_names h)))
         (fst (deletion_phase E snapshot_ids subscription_names h))"
  using run valid
  by (auto simp: delete_snapshots_def deletion_phase_def removal_phase_def Let_def
        split: prod.splits sum.splits if_splits)

text \<open>
  C1. The merge of the delete path keeps every bucket of both passes. A shell line
  is run by \<^verbatim>\<open>Popen\<close> and never raises \<^verbatim>\<open>CalledProcessError\<close>, so the pre-validation
  files under the statuses \<open>valid\<close>, \<open>non-existent\<close> and \<open>invalid\<close> only, and the deletion
  pass files under \<open>deleted\<close>, \<open>failed\<close> and \<open>error\<close> only. For every grouping key and every
  status, the bucket of the merged aggregate is the bucket of the pre-validation
  aggregate followed by the bucket of the deletion aggregate: no bucket of either
  pass is lost or overwritten. This holds for the aggregate of every run of the
  deletion dispatcher, and so for the aggregate that \<^verbatim>\<open>delete_snapshots\<close> returns after
  a deletion pass.
\<close>

theorem merge_keeps_every_bucket:
  assumes "shell_faults_caught E"
  shows "(let pre = snd (fst (pre_validate_snapshots E snapshot_ids subscription_names h));
              deletion = fst (delete_valid_snapshots E valid_snapshots subscription_names h')
          in bucket_of (inner_of (merge_results pre deletion) key) status
               = bucket_of (inner_of pre key) status @ bucket_of (inner_of deletion key) status)
         \<and> (fst (delete_snapshots E snapshot_ids subscription_names h) = Inr results
              \<and> fst (fst (pre_validate_snapshots E snapshot_ids subscription_names h)) \<noteq> []
            \<longrightarrow> bucket_of (inner_of results key) status
                  = bucket_of
                      (inner_of (snd (fst (pre_validate_snapshots E snapshot_ids subscription_names h)))
                         key) status
                    @ bucket_of
                        (inner_of (fst (deletion_phase E snapshot_ids subscription_names h)) key)
                        status)"
proof -
  have disjoint: "{''valid'', ''non-existent'', ''invalid''} \<inter> {''deleted'', ''failed'', ''error''}
                    = ({} :: string set)"
    by simp
  have general: "bucket_of (inner_of (merge_results
                    (snd (fst (pre_validate_snapshots E snapshot_ids subscription_names h)))
                    (fst (delete_valid_snapshots E valid subscription_names h2))) key) status
       = bucket_of (inner_of (snd (fst (pre_validate_snapshots E snapshot_ids subscription_names h)))
            key) status
         @ bucket_of (inner_of (fst (delete_valid_snapshots E valid subscription_names h2)) key)
             status" for valid h2
    by (rule merge_results_buckets[OF delete_valid_snapshots_shape(1)
          pre_validate_snapshots_statuses[OF assms] delete_valid_snapshots_shape(2) disjoint])
  have phase: "\<exists>valid h2. deletion_phase E snapshot_ids subscription_names h
                 = delete_valid_snapshots E valid subscription_names h2"
    by (auto simp: deletion_phase_def split: prod.splits)
  then obtain valid h2 where
    dp: "deletion_phase E snapshot_ids subscription_names h
           = delete_valid_snapshots E valid subscription_names h2"
    by (elim exE)
  show ?thesis
    using general[of valid_snapshots h'] general[of valid h2]
    by (auto simp: Let_def dp[symmetric] dest!: delete_snapshots_merge)
qed

theorem merge_keeps_every_bucket_witness:
  "shell_faults_caught rough_env
   \<and> snd (fst (pre_validate_snapshots rough_env [snap_a, snap_b] Map.empty []))
       = [(''S1'', [(''non-existent'', [Name ''a'']), (''valid'', [Name ''b''])])]
   \<and> fst (deletion_phase rough_env [snap_a, snap_b] Map.empty [])
       = [(''S1'', [(''failed'', [Detail ''b'' ''Deletion failed''])])]
   \<and> fst (delete_snapshots rough_env [snap_a, snap_b] Map.empty [])
       = Inr [(''S1'', [(''non-existent'', [Name ''a'']), (''valid'', [Name ''b'']),
                        (''failed'', [Detail ''b'' ''Deletion failed''])])]
   \<and> bucket_of
         (inner_of [(''S1'', [(''non-existent'', [Name ''a'']), (''valid'', [Name ''b'']),
                              (''failed'', [Detail ''b'' ''Deletion failed''])])] ''S1'')
         ''valid''
       = bucket_of
           (inner_of [(''S1'', [(''non-existent'', [Name ''a'']), (''valid'', [Name ''b''])])] ''S1'')
           ''valid''
         @ bucket_of (inner_of [(''S1'', [(''failed'', [Detail ''b'' ''Deletion failed''])])] ''S1'')
             ''valid''"
proof -
  have caught: "shell_faults_caught rough_env"
    by (simp add: shell_faults_caught_def rough_env_def env_of_def rough_tool_def exit_with_def)
  have pre: "pre_validate_snapshots rough_env [snap_a, snap_b] Map.empty []
       = (([snap_b], [(''S1'', [(''non-existent'', [Name ''a'']), (''valid'', [Name ''b''])])]),
          [Ran (Shell (''az snapshot show --ids '' @ snap_a)) (exit_with '''' ''not found'' 1),
           Ran (Shell (''az snapshot show --ids '' @ snap_b)) (exit_with ''[]'' '''' 0)])"
    by code_simp
  have deletion: "fst (deletion_phase rough_env [snap_a, snap_b] Map.empty [])
       = [(''S1'', [(''failed'', [Detail ''b'' ''Deletion failed''])])]"
    by code_simp
  have run: "fst (delete_snapshots rough_env [snap_a, snap_b] Map.empty [])
       = Inr [(''S1'', [(''non-existent'', [Name ''a'']), (''valid'', [Name ''b'']),
                        (''failed'', [Detail ''b'' ''Deletion failed''])])]"
    by code_simp
  from merge_keeps_every_bucket[OF caught, where snapshot_ids = "[snap_a, snap_b]"
      and subscription_names = Map.empty and h = "[]" and valid_snapshots = "[snap_b]"
      and h' = "[]" and key = "''S1''" and status = "''valid''"
      and results = "[(''S1'', [(''non-existent'', [Name ''a'']), (''valid'', [Name ''b'']),
                        (''failed'', [Detail ''b'' ''Deletion failed''])])]"]
    caught pre deletion run
  show ?thesis by (simp add: Let_def)
qed


subsection \<open>A fault of a worker\<close>












subsection \<open>The lock guard\<close>

lemma shell_cmds_append [simp]: "shell_cmds (xs @ ys) = shell_cmds xs @ shell_cmds ys"
  by (induction xs rule: shell_cmds.induct) auto

lemma shell_results_append [simp]:
  "shell_results E (xs @ ys) = shell_results E xs @ shell_results E ys"
  by (induction E xs rule: shell_results.induct) auto

lemma cmd_results_append [simp]:
  "cmd_results E (xs @ ys) = cmd_results E xs @ cmd_results E ys"
  by (induction E xs rule: cmd_results.induct) auto

lemma confirmed_deletes_append [simp]:
  "confirmed_deletes E (xs @ ys) = confirmed_deletes E xs @ confirmed_deletes E ys"
  by (induction E xs rule: confirmed_deletes.induct) auto

lemma length_shell_results [simp]: "length (shell_results E new) = length (shell_cmds new)"
  by (induction E new rule: shell_results.induct) auto

lemma raised_append [simp]: "ys \<noteq> [] \<Longrightarrow> raised E (xs @ ys) e = raised E ys e"
  by (cases ys rule: rev_cases) (auto simp: raised_def)

lemma raised_appendI: "raised E ys e \<Longrightarrow> raised E (xs @ ys) e"
  by (cases ys rule: rev_cases) (auto simp: raised_def)

lemma raised_single [simp]: "raised E [Ran c out] e = (az_result E c out = Inl e)"
  by (simp add: raised_def)

lemma raised_in_results: "raised E new e \<Longrightarrow> Inl e \<in> set (cmd_results E new)"
proof (cases new rule: rev_cases)
  case Nil
  then show "raised E new e \<Longrightarrow> ?thesis" by (simp add: raised_def)
next
  case (snoc earlier ev)
  then show "raised E new e \<Longrightarrow> ?thesis"
    by (cases ev) (auto simp: raised_def)
qed

lemma run_az_command_eq:
  "run_az_command E c h = (az_result E c (sh E h c), h @ [Ran c (sh E h c)])"
  by (simp add: run_az_command_def Let_def)

text \<open>
  Switching the subscription appends at most one event, never a shell line, and
  raises only what the command raised.
\<close>

lemma switch_subscription_trace:
  "\<exists>sw. snd (switch_subscription E subscription current h) = h @ sw
     \<and> consistent E h sw \<and> shell_cmds sw = [] \<and> shell_results E sw = []
     \<and> confirmed_deletes E sw = []
     \<and> (case fst (switch_subscription E subscription current h) of
           Inl e \<Rightarrow> raised E sw e
         | Inr cur \<Rightarrow> True)"
proof (cases "Some subscription \<noteq> current")
  case False
  then show ?thesis
    by (intro exI[of _ "[]"]) (simp add: switch_subscription_def)
next
  case True
  define c where "c = Argv [''az'', ''account'', ''set'', ''--subscription'', subscription]"
  show ?thesis
    using True
    by (intro exI[of _ "[Ran c (sh E h c)]"])
       (auto simp: switch_subscription_def run_az_command_eq c_def is_lock_delete_def
          split: sum.splits)
qed

text \<open>
  The restoration loop issues the lock-create line of each record in order, one
  per record, until the list is done or a command raises. An error text as the
  result of a create line does not stop it; the count it returns is the number of
  create lines whose result is not an error text.
\<close>

lemma restore_loop_trace:
  "\<exists>new k. snd (restore_loop E locks current n h) = h @ new
     \<and> consistent E h new \<and> k \<le> length locks
     \<and> shell_cmds new = map (lock_create_command E) (take k locks)
     \<and> (case fst (restore_loop E locks current n h) of
           Inl e \<Rightarrow> raised E new e
         | Inr m \<Rightarrow> k = length locks
                     \<and> m = n + length (filter succeeded (shell_results E new)))"
proof (induction locks arbitrary: current n h)
  case Nil
  show ?case by (intro exI[of _ "[]"] exI[of _ 0]) simp
next
  case (Cons lock locks)
  obtain subscription_id resource_group lock_name where
    lock: "lock = (subscription_id, resource_group, lock_name)"
    by (cases lock)
  from switch_subscription_trace[of E subscription_id current h]
  obtain sw where sw:
    "snd (switch_subscription E subscription_id current h) = h @ sw"
    "consistent E h sw" "shell_cmds sw = []" "shell_results E sw = []"
    "case fst (switch_subscription E subscription_id current h) of
       Inl e \<Rightarrow> raised E sw e | Inr cur \<Rightarrow> True"
    by blast
  show ?case
  proof (cases "fst (switch_subscription E subscription_id current h)")
    case (Inl e)
    with sw have "switch_subscription E subscription_id current h = (Inl e, h @ sw)"
      by (metis prod.collapse)
    with sw Inl show ?thesis
      by (intro exI[of _ sw] exI[of _ 0]) (simp add: lock)
  next
    case (Inr cur)
    with sw have switch: "switch_subscription E subscription_id current h = (Inr cur, h @ sw)"
      by (metis prod.collapse)
    define c where "c = lock_create_command E (subscription_id, resource_group, lock_name)"
    define out where "out = sh E (h @ sw) c"
    have shell: "\<exists>line. c = Shell line"
      by (simp add: c_def lock_create_command_def)
    have ev: "shell_cmds [Ran c out] = [c]" "shell_results E [Ran c out] = [az_result E c out]"
      "consistent E (h @ sw) [Ran c out]"
      using shell by (auto simp: out_def)
    show ?thesis
    proof (cases "az_result E c out")
      case (Inl e)
      then show ?thesis
        using sw(2,3) ev
        by (intro exI[of _ "sw @ [Ran c out]"] exI[of _ 1])
           (simp add: lock switch run_az_command_eq c_def[symmetric] out_def[symmetric])
    next
      case (Inr result)
      define n' where "n' = (if \<not> startswith ''Error:'' result then n + 1 else n)"
      have step: "restore_loop E (lock # locks) current n h
                    = restore_loop E locks cur n' (h @ sw @ [Ran c out])"
        by (simp add: lock switch run_az_command_eq c_def[symmetric] out_def[symmetric] Inr n'_def)
      from Cons.IH[of cur n' "h @ sw @ [Ran c out]"]
      obtain new k where new:
        "snd (restore_loop E locks cur n' (h @ sw @ [Ran c out])) = (h @ sw @ [Ran c out]) @ new"
        "consistent E (h @ sw @ [Ran c out]) new" "k \<le> length locks"
        "shell_cmds new = map (lock_create_command E) (take k locks)"
        "case fst (restore_loop E locks cur n' (h @ sw @ [Ran c out])) of
           Inl e \<Rightarrow> raised E new e
         | Inr m \<Rightarrow> k = length locks
                     \<and> m = n' + length (filter succeeded (shell_results E new))"
        by blast
      have count: "n' = n + length (filter succeeded [az_result E c out])"
        by (simp add: n'_def Inr succeeded_def)
      let ?new = "(sw @ [Ran c out]) @ new"
      have A: "snd (restore_loop E locks cur n' (h @ sw @ [Ran c out])) = h @ ?new"
        using new(1) by simp
      have B: "consistent E h ?new"
        using sw(2) ev(3) new(2) consistent_append[of E "h @ sw" "[Ran c out]" new]
        by simp
      have C: "Suc k \<le> length (lock # locks)"
        using new(3) by simp
      have "shell_cmds ?new = c # map (lock_create_command E) (take k locks)"
        using sw(3) ev(1) new(4) shell_cmds_append[of "[Ran c out]" new] by simp
      then have D: "shell_cmds ?new = map (lock_create_command E) (take (Suc k) (lock # locks))"
        by (simp add: lock c_def)
      have results: "shell_results E ?new = az_result E c out # shell_results E new"
        using sw(4) ev(2) shell_results_append[of E "[Ran c out]" new] by simp
      have F: "case fst (restore_loop E locks cur n' (h @ sw @ [Ran c out])) of
                 Inl e \<Rightarrow> raised E ?new e
               | Inr m \<Rightarrow> Suc k = length (lock # locks)
                           \<and> m = n + length (filter succeeded (shell_results E ?new))"
      proof (cases "fst (restore_loop E locks cur n' (h @ sw @ [Ran c out]))")
        case (Inl e)
        with new(5) have "raised E new e" by simp
        then have "raised E ?new e" by (rule raised_appendI)
        with Inl show ?thesis by simp
      next
        case (Inr m)
        with new(5) have "k = length locks"
          and "m = n' + length (filter succeeded (shell_results E new))"
          by simp_all
        with count results Inr show ?thesis by simp
      qed
      show ?thesis
        unfolding step using A B C D F by blast
    qed
  qed
qed

text \<open>
  The removal scan records a lock exactly when its delete line did not end in an
  error text: the delete lines of the records returned are the confirmed
  deletions of the scan, in order.
\<close>

lemma lock_delete_is_delete [simp]: "is_lock_delete (lock_delete_command E r)"
  by (cases r) (simp add: lock_delete_command_def is_lock_delete_def startswith_def)

lemma lock_list_not_delete [simp]: "\<not> is_lock_delete (lock_list_command resource_group)"
  by (simp add: lock_list_command_def is_lock_delete_def startswith_def)

lemma remove_locks_trace:
  "\<exists>new. snd (remove_locks E subscription_id resource_group locks removed h) = h @ new
     \<and> consistent E h new
     \<and> (case fst (remove_locks E subscription_id resource_group locks removed h) of
           Inl e \<Rightarrow> True
         | Inr removed' \<Rightarrow>
             map (lock_delete_command E) removed'
               = map (lock_delete_command E) removed @ confirmed_deletes E new)"
proof (induction locks arbitrary: removed h)
  case Nil
  show ?case by (intro exI[of _ "[]"]) simp
next
  case (Cons lock locks)
  show ?case
  proof (cases "py_getitem lock ''level''")
    case (Inl e)
    then show ?thesis by (intro exI[of _ "[]"]) simp
  next
    case level: (Inr level)
    show ?thesis
    proof (cases "level = JStr ''CanNotDelete''")
      case False
      with level Cons.IH[of removed h] show ?thesis by simp
    next
      case True
      show ?thesis
      proof (cases "py_getitem lock ''name''")
        case (Inl e)
        with level True show ?thesis by (intro exI[of _ "[]"]) simp
      next
        case name: (Inr name)
        define c where "c = lock_delete_command E (subscription_id, resource_group, name)"
        define out where "out = sh E h c"
        have del: "is_lock_delete c" by (simp add: c_def)
        show ?thesis
        proof (cases "az_result E c out")
          case (Inl e)
          then show ?thesis
            by (intro exI[of _ "[Ran c out]"])
               (simp add: level True name run_az_command_eq c_def[symmetric] out_def[symmetric])
        next
          case (Inr result)
          define removed1 where
            "removed1 = (if \<not> startswith ''Error:'' result
                         then removed @ [(subscription_id, resource_group, name)] else removed)"
          have step: "remove_locks E subscription_id resource_group (lock # locks) removed h
                        = remove_locks E subscription_id resource_group locks removed1
                            (h @ [Ran c out])"
            by (simp add: level True name run_az_command_eq c_def[symmetric] out_def[symmetric]
                  Inr removed1_def)
          from Cons.IH[of removed1 "h @ [Ran c out]"]
          obtain new where new:
            "snd (remove_locks E subscription_id resource_group locks removed1 (h @ [Ran c out]))
               = (h @ [Ran c out]) @ new"
            "consistent E (h @ [Ran c out]) new"
            "case fst (remove_locks E subscription_id resource_group locks removed1
                         (h @ [Ran c out])) of
               Inl e \<Rightarrow> True
             | Inr removed' \<Rightarrow>
                 map (lock_delete_command E) removed'
                   = map (lock_delete_command E) removed1 @ confirmed_deletes E new"
            by blast
          have first: "map (lock_delete_command E) removed1
                = map (lock_delete_command E) removed @ confirmed_deletes E [Ran c out]"
            using del Inr by (simp add: removed1_def succeeded_def c_def[symmetric])
          have A: "snd (remove_locks E subscription_id resource_group locks removed1
                          (h @ [Ran c out])) = h @ ([Ran c out] @ new)"
            using new(1) by simp
          have B: "consistent E h ([Ran c out] @ new)"
            using new(2) consistent_append[of E h "[Ran c out]" new] by (simp add: out_def)
          have F: "case fst (remove_locks E subscription_id resource_group locks removed1
                         (h @ [Ran c out])) of
               Inl e \<Rightarrow> True
             | Inr removed' \<Rightarrow>
                 map (lock_delete_command E) removed'
                   = map (lock_delete_command E) removed
                       @ confirmed_deletes E ([Ran c out] @ new)"
            using new(3) first confirmed_deletes_append[of E "[Ran c out]" new]
            by (cases "fst (remove_locks E subscription_id resource_group locks removed1
                         (h @ [Ran c out]))") simp_all
          show ?thesis unfolding step using A B F by blast
        qed
      qed
    qed
  qed
qed

lemma scan_groups_trace:
  "\<exists>new. snd (scan_groups E groups current removed h) = h @ new
     \<and> consistent E h new
     \<and> (case fst (scan_groups E groups current removed h) of
           Inl e \<Rightarrow> True
         | Inr removed' \<Rightarrow>
             map (lock_delete_command E) removed'
               = map (lock_delete_command E) removed @ confirmed_deletes E new)"
proof (induction groups arbitrary: current removed h)
  case Nil
  show ?case by (intro exI[of _ "[]"]) simp
next
  case (Cons group groups)
  obtain subscription_id resource_group where
    group: "group = (subscription_id, resource_group)" by (cases group)
  from switch_subscription_trace[of E subscription_id current h]
  obtain sw where sw:
    "snd (switch_subscription E subscription_id current h) = h @ sw"
    "consistent E h sw" "confirmed_deletes E sw = []"
    by blast
  show ?case
  proof (cases "fst (switch_subscription E subscription_id current h)")
    case (Inl e)
    with sw have "switch_subscription E subscription_id current h = (Inl e, h @ sw)"
      by (metis prod.collapse)
    with sw show ?thesis by (intro exI[of _ sw]) (simp add: group)
  next
    case (Inr cur)
    with sw have switch: "switch_subscription E subscription_id current h = (Inr cur, h @ sw)"
      by (metis prod.collapse)
    define c where "c = lock_list_command resource_group"
    define out where "out = sh E (h @ sw) c"
    define h2 where "h2 = h @ sw @ [Ran c out]"
    have pre: "consistent E h (sw @ [Ran c out])" "confirmed_deletes E (sw @ [Ran c out]) = []"
      using sw(2,3) by (simp_all add: out_def c_def)
    have stop: ?thesis
      if "scan_groups E (group # groups) current removed h = (Inl e, h2)" for e
      using that pre by (intro exI[of _ "sw @ [Ran c out]"]) (simp add: h2_def)
    show ?thesis
    proof (cases "az_result E c out")
      case (Inl e)
      show ?thesis
        by (rule stop[of e])
           (simp add: group switch run_az_command_eq c_def[symmetric] out_def[symmetric] Inl
              h2_def)
    next
      case listed: (Inr listed)
      show ?thesis
      proof (cases "json_loads E listed")
        case (Inl msg)
        show ?thesis
          by (rule stop[of "Exn JSONDecodeError msg"])
             (simp add: group switch run_az_command_eq c_def[symmetric] out_def[symmetric] listed
                Inl h2_def)
      next
        case parsed: (Inr parsed)
        show ?thesis
        proof (cases "py_iter parsed")
          case (Inl e)
          show ?thesis
            by (rule stop[of e])
               (simp add: group switch run_az_command_eq c_def[symmetric] out_def[symmetric] listed
                  parsed Inl h2_def)
        next
          case locks: (Inr locks)
          from remove_locks_trace[of E subscription_id resource_group locks removed h2]
          obtain rm where rm:
            "snd (remove_locks E subscription_id resource_group locks removed h2) = h2 @ rm"
            "consistent E h2 rm"
            "case fst (remove_locks E subscription_id resource_group locks removed h2) of
               Inl e \<Rightarrow> True
             | Inr removed' \<Rightarrow>
                 map (lock_delete_command E) removed'
                   = map (lock_delete_command E) removed @ confirmed_deletes E rm"
            by blast
          show ?thesis
          proof (cases "fst (remove_locks E subscription_id resource_group locks removed h2)")
            case (Inl e)
            with rm(1) have
              "remove_locks E subscription_id resource_group locks removed h2 = (Inl e, h2 @ rm)"
              by (metis prod.collapse)
            then have "scan_groups E (group # groups) current removed h = (Inl e, h2 @ rm)"
              by (simp add: group switch run_az_command_eq c_def[symmetric] out_def[symmetric]
                    listed parsed locks h2_def)
            then show ?thesis
              using pre(1) rm(2)
              by (intro exI[of _ "(sw @ [Ran c out]) @ rm"]) (simp add: h2_def)
          next
            case (Inr removed1)
            with rm(1) have
              "remove_locks E subscription_id resource_group locks removed h2
                 = (Inr removed1, h2 @ rm)"
              by (metis prod.collapse)
            then have step: "scan_groups E (group # groups) current removed h
                        = scan_groups E groups cur removed1 (h2 @ rm)"
              by (simp add: group switch run_az_command_eq c_def[symmetric] out_def[symmetric]
                    listed parsed locks h2_def)
            from rm(3) Inr have r1: "map (lock_delete_command E) removed1
                   = map (lock_delete_command E) removed @ confirmed_deletes E rm"
              by simp
            from Cons.IH[of cur removed1 "h2 @ rm"]
            obtain new where new:
              "snd (scan_groups E groups cur removed1 (h2 @ rm)) = (h2 @ rm) @ new"
              "consistent E (h2 @ rm) new"
              "case fst (scan_groups E groups cur removed1 (h2 @ rm)) of
                 Inl e \<Rightarrow> True
               | Inr removed' \<Rightarrow>
                   map (lock_delete_command E) removed'
                     = map (lock_delete_command E) removed1 @ confirmed_deletes E new"
              by blast
            let ?new = "((sw @ [Ran c out]) @ rm) @ new"
            have A: "snd (scan_groups E groups cur removed1 (h2 @ rm)) = h @ ?new"
              using new(1) by (simp add: h2_def)
            have B: "consistent E h ?new"
              using pre(1) rm(2) new(2) by (simp add: h2_def)
            have conf: "confirmed_deletes E ?new = confirmed_deletes E rm @ confirmed_deletes E new"
              using sw(3) by (simp add: c_def)
            have F: "case fst (scan_groups E groups cur removed1 (h2 @ rm)) of
                 Inl e \<Rightarrow> True
               | Inr removed' \<Rightarrow>
                   map (lock_delete_command E) removed'
                     = map (lock_delete_command E) removed @ confirmed_deletes E ?new"
              using new(3) r1 conf
              by (cases "fst (scan_groups E groups cur removed1 (h2 @ rm))") simp_all
            show ?thesis unfolding step using A B F by blast
          qed
        qed
      qed
    qed
  qed
qed


lemma all_succeeded_shell_results:
  "list_all succeeded (cmd_results E new) \<Longrightarrow>
     filter succeeded (shell_results E new) = shell_results E new"
  by (induction E new rule: shell_results.induct) auto

lemma restore_scope_locks_trace:
  "snd (restore_scope_locks E removed_locks h)
     = h @ drop (length h) (snd (restore_scope_locks E removed_locks h))
   \<and> consistent E h (drop (length h) (snd (restore_scope_locks E removed_locks h)))
   \<and> (\<exists>k. k \<le> length removed_locks
          \<and> shell_cmds (drop (length h) (snd (restore_scope_locks E removed_locks h)))
              = map (lock_create_command E) (take k removed_locks))
   \<and> (case fst (restore_scope_locks E removed_locks h) of
         Inl e \<Rightarrow> raised E (drop (length h) (snd (restore_scope_locks E removed_locks h))) e
       | Inr restored \<Rightarrow>
           shell_cmds (drop (length h) (snd (restore_scope_locks E removed_locks h)))
             = map (lock_create_command E) removed_locks
           \<and> restored
               = length (filter succeeded
                   (shell_results E
                      (drop (length h) (snd (restore_scope_locks E removed_locks h))))))"
proof -
  from restore_loop_trace[of E removed_locks None 0 h]
  obtain new k where new:
    "snd (restore_loop E removed_locks None 0 h) = h @ new"
    "consistent E h new" "k \<le> length removed_locks"
    "shell_cmds new = map (lock_create_command E) (take k removed_locks)"
    "case fst (restore_loop E removed_locks None 0 h) of
       Inl e \<Rightarrow> raised E new e
     | Inr m \<Rightarrow> k = length removed_locks
                 \<and> m = 0 + length (filter succeeded (shell_results E new))"
    by blast
  have d: "drop (length h) (snd (restore_scope_locks E removed_locks h)) = new"
    using new(1) by (simp add: restore_scope_locks_def)
  show ?thesis
    unfolding d
    using new
    by (cases "fst (restore_loop E removed_locks None 0 h)")
       (auto simp: restore_scope_locks_def)
qed

text \<open>
  C7. When the restoration returns its count, the count is the number of
  lock-create lines that did not end in an error text, one line having been issued
  per removed lock: it never exceeds the number of removed locks. When no command
  of the restoration fails, the restoration returns the number of removed locks.
  The removal scan, when it returns, has recorded exactly the locks whose delete
  line did not end in an error text.
\<close>

theorem lock_restoration_count:
  "(case fst (restore_scope_locks E removed_locks h) of
      Inl e \<Rightarrow> raised E (drop (length h) (snd (restore_scope_locks E removed_locks h))) e
    | Inr restored \<Rightarrow>
        restored \<le> length removed_locks
        \<and> restored
            = length (filter succeeded
                (shell_results E
                   (drop (length h) (snd (restore_scope_locks E removed_locks h)))))
        \<and> shell_cmds (drop (length h) (snd (restore_scope_locks E removed_locks h)))
            = map (lock_create_command E) removed_locks)
   \<and> (list_all succeeded
         (cmd_results E (drop (length h) (snd (restore_scope_locks E removed_locks h))))
        \<longrightarrow> fst (restore_scope_locks E removed_locks h) = Inr (length removed_locks))
   \<and> (case fst (check_and_remove_scope_locks E resource_groups h) of
         Inl e \<Rightarrow> True
       | Inr recorded \<Rightarrow>
           map (lock_delete_command E) recorded
             = confirmed_deletes E
                 (drop (length h) (snd (check_and_remove_scope_locks E resource_groups h))))"
proof -
  let ?new = "drop (length h) (snd (restore_scope_locks E removed_locks h))"
  note t = restore_scope_locks_trace[of E removed_locks h]
  have part1: "case fst (restore_scope_locks E removed_locks h) of
      Inl e \<Rightarrow> raised E ?new e
    | Inr restored \<Rightarrow>
        restored \<le> length removed_locks
        \<and> restored = length (filter succeeded (shell_results E ?new))
        \<and> shell_cmds ?new = map (lock_create_command E) removed_locks"
  proof (cases "fst (restore_scope_locks E removed_locks h)")
    case (Inl e)
    with t show ?thesis by simp
  next
    case (Inr restored)
    with t have cmds: "shell_cmds ?new = map (lock_create_command E) removed_locks"
      and n: "restored = length (filter succeeded (shell_results E ?new))"
      by simp_all
    have "length (filter succeeded (shell_results E ?new)) \<le> length (shell_results E ?new)"
      by (rule length_filter_le)
    also have "\<dots> = length removed_locks" using cmds by simp
    finally show ?thesis using Inr cmds n by simp
  qed
  have part2: "fst (restore_scope_locks E removed_locks h) = Inr (length removed_locks)"
    if ok: "list_all succeeded (cmd_results E ?new)"
  proof (cases "fst (restore_scope_locks E removed_locks h)")
    case (Inl e)
    with t have "raised E ?new e" by simp
    then have "Inl e \<in> set (cmd_results E ?new)" by (rule raised_in_results)
    with ok have "succeeded (Inl e)" by (simp add: list_all_iff)
    then show ?thesis by (simp add: succeeded_def)
  next
    case (Inr restored)
    with t have cmds: "shell_cmds ?new = map (lock_create_command E) removed_locks"
      and n: "restored = length (filter succeeded (shell_results E ?new))"
      by simp_all
    from ok have "filter succeeded (shell_results E ?new) = shell_results E ?new"
      by (rule all_succeeded_shell_results)
    with n cmds have "restored = length removed_locks" by simp
    with Inr show ?thesis by simp
  qed
  from scan_groups_trace[of E "set_iter E resource_groups" None "[]" h]
  obtain new where new:
    "snd (scan_groups E (set_iter E resource_groups) None [] h) = h @ new"
    "case fst (scan_groups E (set_iter E resource_groups) None [] h) of
       Inl e \<Rightarrow> True
     | Inr removed' \<Rightarrow>
         map (lock_delete_command E) removed'
           = map (lock_delete_command E) [] @ confirmed_deletes E new"
    by blast
  have d: "drop (length h) (snd (check_and_remove_scope_locks E resource_groups h)) = new"
    using new(1) by (simp add: check_and_remove_scope_locks_def)
  have part3: "case fst (check_and_remove_scope_locks E resource_groups h) of
         Inl e \<Rightarrow> True
       | Inr recorded \<Rightarrow>
           map (lock_delete_command E) recorded
             = confirmed_deletes E
                 (drop (length h) (snd (check_and_remove_scope_locks E resource_groups h)))"
    unfolding d using new(2)
    by (cases "fst (scan_groups E (set_iter E resource_groups) None [] h)")
       (simp_all add: check_and_remove_scope_locks_def)
  from part1 part2 part3 show ?thesis by blast
qed


theorem lock_restoration_count_witness:
  "list_all succeeded
     (cmd_results locked_env
        (drop (length ([] :: history))
           (snd (restore_scope_locks locked_env [(''S1'', ''G1'', JStr ''keep'')] []))))
   \<and> fst (restore_scope_locks locked_env [(''S1'', ''G1'', JStr ''keep'')] []) = Inr 1
   \<and> fst (restore_scope_locks no_create_env [(''S1'', ''G1'', JStr ''keep'')] []) = Inr 0
   \<and> fst (check_and_remove_scope_locks locked_env [(''S1'', ''G1'')] [])
       = Inr [(''S1'', ''G1'', JStr ''keep'')]"
proof -
  have ok: "list_all succeeded
     (cmd_results locked_env
        (drop (length ([] :: history))
           (snd (restore_scope_locks locked_env [(''S1'', ''G1'', JStr ''keep'')] []))))"
    by code_simp
  from lock_restoration_count[where E = locked_env
      and removed_locks = "[(''S1'', ''G1'', JStr ''keep'')]" and h = "[]"] ok
  have one: "fst (restore_scope_locks locked_env [(''S1'', ''G1'', JStr ''keep'')] []) = Inr 1"
    by simp
  have zero: "fst (restore_scope_locks no_create_env [(''S1'', ''G1'', JStr ''keep'')] []) = Inr 0"
    by code_simp
  have rec: "fst (check_and_remove_scope_locks locked_env [(''S1'', ''G1'')] [])
       = Inr [(''S1'', ''G1'', JStr ''keep'')]"
    by code_simp
  from ok one zero rec show ?thesis by blast
qed

lemma delete_snapshots_restores:
  assumes valid: "fst (fst (pre_validate_snapshots E snapshot_ids subscription_names h)) \<noteq> []"
    and removed: "fst (removal_phase E snapshot_ids subscription_names h) = Inr removed_locks"
  shows "delete_snapshots E snapshot_ids subscription_names h
     = (case restore_scope_locks E removed_locks
               (snd (deletion_phase E snapshot_ids subscription_names h)) of
          (Inl e, h4) \<Rightarrow> (Inl e, h4)
        | (Inr restored_locks, h4) \<Rightarrow>
            (Inr (merge_results
                    (snd (fst (pre_validate_snapshots E snapshot_ids subscription_names h)))
                    (fst (deletion_phase E snapshot_ids subscription_names h))), h4))"
proof -
  obtain valid_snapshots pre h1 where
    pv: "pre_validate_snapshots E snapshot_ids subscription_names h = ((valid_snapshots, pre), h1)"
    by (metis prod.collapse)
  obtain h2 where
    cr: "check_and_remove_scope_locks E (get_resource_groups_from_snapshots valid_snapshots) h1
           = (Inr removed_locks, h2)"
    using removed pv by (simp add: removal_phase_def) (metis prod.collapse)
  obtain deletion h3 where
    dv: "delete_valid_snapshots E valid_snapshots subscription_names h2 = (deletion, h3)"
    by (metis prod.collapse)
  have dp: "deletion_phase E snapshot_ids subscription_names h = (deletion, h3)"
    by (simp add: deletion_phase_def removal_phase_def pv cr dv)
  from valid pv have "valid_snapshots \<noteq> []" by simp
  then show ?thesis
    by (simp add: delete_snapshots_def pv cr dv dp Let_def split: prod.splits sum.splits)
qed

text \<open>
  C4, as amended. When the pre-validation finds valid snapshots and the lock
  removal returns its records, the pipeline runs the restoration on exactly these
  records, from the history the deletion pass left and whatever the deletion pass
  filed: the events after the deletion pass are the restoration's. They hold the
  lock-create lines of a prefix of the records, in order, at most one per record.
  If the pipeline returns, every record has had its create line, also after a
  create line that ended in an error text; the restoration stops early only when
  a command raised, and then the pipeline raises the same exception.
\<close>

theorem restoration_after_deletion:
  assumes "fst (fst (pre_validate_snapshots E snapshot_ids subscription_names h)) \<noteq> []"
    and "fst (removal_phase E snapshot_ids subscription_names h) = Inr removed_locks"
  shows "(let h3 = snd (deletion_phase E snapshot_ids subscription_names h);
              new = drop (length h3) (snd (delete_snapshots E snapshot_ids subscription_names h))
          in snd (delete_snapshots E snapshot_ids subscription_names h) = h3 @ new
             \<and> snd (restore_scope_locks E removed_locks h3) = h3 @ new
             \<and> consistent E h3 new
             \<and> (\<exists>k. k \<le> length removed_locks
                    \<and> shell_cmds new = map (lock_create_command E) (take k removed_locks))
             \<and> (case fst (delete_snapshots E snapshot_ids subscription_names h) of
                   Inl e \<Rightarrow> raised E new e
                 | Inr results \<Rightarrow>
                     shell_cmds new = map (lock_create_command E) removed_locks
                     \<and> results
                         = merge_results
                             (snd (fst (pre_validate_snapshots E snapshot_ids
                                          subscription_names h)))
                             (fst (deletion_phase E snapshot_ids subscription_names h))))"
proof -
  define h3 where "h3 = snd (deletion_phase E snapshot_ids subscription_names h)"
  note run = delete_snapshots_restores[OF assms, folded h3_def]
  note t = restore_scope_locks_trace[of E removed_locks h3]
  have hist: "snd (delete_snapshots E snapshot_ids subscription_names h)
                = snd (restore_scope_locks E removed_locks h3)"
    unfolding run by (simp split: prod.splits sum.splits)
  have res: "case fst (delete_snapshots E snapshot_ids subscription_names h) of
               Inl e \<Rightarrow> fst (restore_scope_locks E removed_locks h3) = Inl e
             | Inr results \<Rightarrow>
                 (\<exists>n. fst (restore_scope_locks E removed_locks h3) = Inr n)
                 \<and> results
                     = merge_results
                         (snd (fst (pre_validate_snapshots E snapshot_ids subscription_names h)))
                         (fst (deletion_phase E snapshot_ids subscription_names h))"
    unfolding run by (simp split: prod.splits sum.splits)
  show ?thesis
    unfolding Let_def h3_def[symmetric] hist
    using t res
    by (cases "fst (delete_snapshots E snapshot_ids subscription_names h)")
       (auto split: sum.splits)
qed


theorem restoration_after_deletion_witness:
  "fst (fst (pre_validate_snapshots no_create_env [snap_a] Map.empty [])) \<noteq> []
   \<and> fst (removal_phase no_create_env [snap_a] Map.empty [])
       = Inr [(''S1'', ''G1'', JStr ''keep'')]
   \<and> fst (delete_snapshots no_create_env [snap_a] Map.empty [])
       = Inr [(''S1'', [(''valid'', [Name ''a'']), (''deleted'', [Name ''a''])])]
   \<and> shell_cmds
        (drop (length (snd (deletion_phase no_create_env [snap_a] Map.empty [])))
           (snd (delete_snapshots no_create_env [snap_a] Map.empty [])))
       = [lock_create_command no_create_env (''S1'', ''G1'', JStr ''keep'')]
   \<and> shell_results no_create_env
        (drop (length (snd (deletion_phase no_create_env [snap_a] Map.empty [])))
           (snd (delete_snapshots no_create_env [snap_a] Map.empty [])))
       = [Inr ''Error: denied'']"
proof -
  have valid: "fst (fst (pre_validate_snapshots no_create_env [snap_a] Map.empty [])) \<noteq> []"
    by code_simp
  have removed: "fst (removal_phase no_create_env [snap_a] Map.empty [])
       = Inr [(''S1'', ''G1'', JStr ''keep'')]"
    by code_simp
  have run: "fst (delete_snapshots no_create_env [snap_a] Map.empty [])
       = Inr [(''S1'', [(''valid'', [Name ''a'']), (''deleted'', [Name ''a''])])]"
    by code_simp
  have denied: "shell_results no_create_env
        (drop (length (snd (deletion_phase no_create_env [snap_a] Map.empty [])))
           (snd (delete_snapshots no_create_env [snap_a] Map.empty [])))
       = [Inr ''Error: denied'']"
    by code_simp
  from restoration_after_deletion[OF valid removed]
  have "shell_cmds
        (drop (length (snd (deletion_phase no_create_env [snap_a] Map.empty [])))
           (snd (delete_snapshots no_create_env [snap_a] Map.empty [])))
       = [lock_create_command no_create_env (''S1'', ''G1'', JStr ''keep'')]"
    unfolding Let_def run by simp
  with valid removed run denied show ?thesis by blast
qed

text \<open>
  C4 as stated fails. Here the lock \<open>keep\<close> is removed and the snapshot is deleted;
  then \<^verbatim>\<open>az account set\<close> fails, \<^verbatim>\<open>switch_subscription\<close> re-raises, and the pipeline
  ends with that exception: no lock-create line was issued. In the restoration
  of two records, the failure at the first record ends the loop: the second
  record gets no attempt either.
\<close>

theorem restoration_skipped_counterexample:
  "fst (removal_phase relock_env [snap_a] Map.empty [])
     = Inr [(''S1'', ''G1'', JStr ''keep'')]
   \<and> fst (delete_snapshots relock_env [snap_a] Map.empty [])
     = Inl (called_process_error relock_env
              [''az'', ''account'', ''set'', ''--subscription'', ''S1''] 1)
   \<and> shell_cmds (snd (delete_snapshots relock_env [snap_a] Map.empty []))
     = [Shell (''az snapshot show --ids '' @ snap_a), lock_list_command ''G1'',
        lock_delete_command relock_env (''S1'', ''G1'', JStr ''keep''),
        Shell (''az snapshot delete --ids '' @ snap_a)]
   \<and> fst (restore_scope_locks relock_env
             [(''S1'', ''G1'', JStr ''keep''), (''S2'', ''G2'', JStr ''hold'')]
             [Ran (lock_delete_command relock_env (''S1'', ''G1'', JStr ''keep''))
                  (exit_with '''' '''' 0)])
     = Inl (called_process_error relock_env
              [''az'', ''account'', ''set'', ''--subscription'', ''S1''] 1)
   \<and> shell_cmds
        (drop 1
           (snd (restore_scope_locks relock_env
                   [(''S1'', ''G1'', JStr ''keep''), (''S2'', ''G2'', JStr ''hold'')]
                   [Ran (lock_delete_command relock_env (''S1'', ''G1'', JStr ''keep''))
                        (exit_with '''' '''' 0)])))
     = []"
  by code_simp


subsection \<open>The create path\<close>

lemma stage_result_cases:
  obtains (raises) e where "r = Inl e" "\<not> exited_zero r" "\<not> exited_nonzero r"
  | (fails) out err rc where "r = Inr (out, err, rc)" "rc \<noteq> 0" "exited_nonzero r"
      "\<not> exited_zero r" "errors_of r = err"
  | (succeeds) out err where "r = Inr (out, err, 0)" "exited_zero r" "\<not> exited_nonzero r"
      "output_of r = out"
proof (cases r)
  case (Inl e)
  then show ?thesis by (intro raises[of e]) (simp_all add: exited_zero_def exited_nonzero_def)
next
  case (Inr t)
  obtain out err rc where t: "t = (out, err, rc)" by (cases t)
  show ?thesis
  proof (cases "rc = 0")
    case True
    with Inr t show ?thesis
      by (intro succeeds[of out err])
         (simp_all add: exited_zero_def exited_nonzero_def output_of_def)
  next
    case False
    with Inr t show ?thesis
      by (intro fails[of out err rc])
         (simp_all add: exited_zero_def exited_nonzero_def errors_of_def)
  qed
qed

text \<open>
  C8. For a resource id with a subscription segment, \<^verbatim>\<open>process_vm\<close> stops at the
  first stage whose command ends with a non-zero return code (for the disk id also
  at an empty output) and returns the VM name with the text naming this stage; the
  history then ends with that stage and its two log lines, so no later command has
  run. When all four commands succeed and the output of the snapshot-create
  command is not JSON, it returns the VM name with the snapshot name, and logs the
  warning and the raw output.
\<close>

theorem process_vm_stages:
  assumes "2 < length (split_on CHR ''/'' resource_id)"
    and "split_on CHR ''/'' resource_id ! 2 \<noteq> []"
  shows "(let s1 = subscription_stage E resource_id vm_name h0;
              s2 = disk_stage E resource_id vm_name h0;
              s3 = group_stage E resource_id vm_name h0;
              s4 = create_stage E timestamp resource_id vm_name chg_number h0;
              run = process_vm E timestamp resource_id vm_name chg_number h0
          in (exited_nonzero (fst s1) \<longrightarrow>
                run = (Inr (vm_name, ''Failed to set subscription ID''),
                       write_detailed_log
                         [''Failed to set subscription ID: '' @ split_on CHR ''/'' resource_id ! 2,
                          ''Error: '' @ errors_of (fst s1)] (snd s1)))
           \<and> (exited_zero (fst s1)
                \<and> (exited_nonzero (fst s2) \<or> exited_zero (fst s2) \<and> output_of (fst s2) = []) \<longrightarrow>
                run = (Inr (vm_name, ''Failed to get disk ID''),
                       write_detailed_log
                         [''Failed to get disk ID for VM: '' @ vm_name,
                          ''Error: '' @ errors_of (fst s2)] (snd s2)))
           \<and> (exited_zero (fst s1) \<and> exited_zero (fst s2) \<and> output_of (fst s2) \<noteq> []
                \<and> exited_nonzero (fst s3) \<longrightarrow>
                run = (Inr (vm_name, ''Failed to get resource group''),
                       write_detailed_log
                         [''Failed to get resource group for VM: '' @ vm_name,
                          ''Error: '' @ errors_of (fst s3)] (snd s3)))
           \<and> (exited_zero (fst s1) \<and> exited_zero (fst s2) \<and> output_of (fst s2) \<noteq> []
                \<and> exited_zero (fst s3) \<and> exited_nonzero (fst s4) \<longrightarrow>
                run = (Inr (vm_name, ''Failed to create snapshot''),
                       write_detailed_log
                         [''Failed to create snapshot for VM: '' @ vm_name,
                          ''Error: '' @ errors_of (fst s4)] (snd s4)))
           \<and> (exited_zero (fst s1) \<and> exited_zero (fst s2) \<and> output_of (fst s2) \<noteq> []
                \<and> exited_zero (fst s3) \<and> exited_zero (fst s4)
                \<and> isl (json_loads E (output_of (fst s4))) \<longrightarrow>
                run = (Inr (vm_name, snapshot_name_of chg_number vm_name timestamp),
                       write_detailed_log
                         [''Snapshot created: '' @ snapshot_name_of chg_number vm_name timestamp,
                          ''Warning: Could not parse snapshot creation output as JSON. Raw output:'',
                          output_of (fst s4),
                          ''Snapshot created successfully for VM: '' @ vm_name] (snd s4))))"
proof -
  define s1 where "s1 = subscription_stage E resource_id vm_name h0"
  define s2 where "s2 = disk_stage E resource_id vm_name h0"
  define s3 where "s3 = group_stage E resource_id vm_name h0"
  define s4 where "s4 = create_stage E timestamp resource_id vm_name chg_number h0"
  define run where "run = process_vm E timestamp resource_id vm_name chg_number h0"
  have len: "\<not> length (split_on CHR ''/'' resource_id) < 3" using assms(1) by simp
  have r1: "run_az_command_async_default E
              (''az account set --subscription '' @ split_on CHR ''/'' resource_id ! 2)
              (write_detailed_log
                 [''Processing VM: '' @ vm_name, ''Resource ID: '' @ resource_id] h0)
            = (fst s1, snd s1)"
    by (simp add: s1_def subscription_stage_def)
  have r2: "run_az_command_async_default E
              (vm_show_command resource_id ''storageProfile.osDisk.managedDisk.id'')
              (write_detailed_log [''Subscription ID: '' @ split_on CHR ''/'' resource_id ! 2]
                 (snd s1))
            = (fst s2, snd s2)"
    by (simp add: s2_def s1_def disk_stage_def)
  have r3: "run_az_command_async_default E (vm_show_command resource_id ''resourceGroup'')
              (snd s2) = (fst s3, snd s3)"
    by (simp add: s3_def s2_def group_stage_def)
  have r4: "run_az_command_async_default E
              (''az snapshot create --name '' @ snapshot_name_of chg_number vm_name timestamp
                 @ '' --resource-group '' @ output_of (fst s3)
                 @ '' --source '' @ output_of (fst s2))
              (write_detailed_log [''Resource group name: '' @ output_of (fst s3)] (snd s3))
            = (fst s4, snd s4)"
    by (simp add: s4_def s3_def s2_def create_stage_def)
  have c1: "run = (Inr (vm_name, ''Failed to set subscription ID''),
                   write_detailed_log
                     [''Failed to set subscription ID: '' @ split_on CHR ''/'' resource_id ! 2,
                      ''Error: '' @ errors_of (fst s1)] (snd s1))"
    if "exited_nonzero (fst s1)"
  proof (cases "fst s1" rule: stage_result_cases)
    case (fails out err rc)
    then show ?thesis
      using len assms(2) r1 by (simp add: run_def process_vm_def Let_def)
  qed (use that in simp_all)
  have c2: "run = (Inr (vm_name, ''Failed to get disk ID''),
                   write_detailed_log
                     [''Failed to get disk ID for VM: '' @ vm_name,
                      ''Error: '' @ errors_of (fst s2)] (snd s2))"
    if ok1: "exited_zero (fst s1)"
      and bad: "exited_nonzero (fst s2) \<or> exited_zero (fst s2) \<and> output_of (fst s2) = []"
  proof (cases "fst s1" rule: stage_result_cases)
    case one: (succeeds out1 err1)
    show ?thesis
    proof (cases "fst s2" rule: stage_result_cases)
      case (raises e)
      with bad show ?thesis by simp
    next
      case (fails out err rc)
      then show ?thesis
        using len assms(2) r1 r2 one
        by (simp add: run_def process_vm_def Let_def)
    next
      case (succeeds out err)
      with bad have "out = []" by simp
      with succeeds show ?thesis
        using len assms(2) r1 r2 one
        by (simp add: run_def process_vm_def Let_def errors_of_def)
    qed
  qed (use ok1 in simp_all)
  have c3: "run = (Inr (vm_name, ''Failed to get resource group''),
                   write_detailed_log
                     [''Failed to get resource group for VM: '' @ vm_name,
                      ''Error: '' @ errors_of (fst s3)] (snd s3))"
    if ok1: "exited_zero (fst s1)" and ok2: "exited_zero (fst s2)"
      and out2: "output_of (fst s2) \<noteq> []" and bad: "exited_nonzero (fst s3)"
  proof (cases "fst s1" rule: stage_result_cases)
    case one: (succeeds out1 err1)
    show ?thesis
    proof (cases "fst s2" rule: stage_result_cases)
      case two: (succeeds out2 err2)
      show ?thesis
      proof (cases "fst s3" rule: stage_result_cases)
        case (fails out err rc)
        then show ?thesis
          using len assms(2) r1 r2 r3 one two out2
          by (simp add: run_def process_vm_def Let_def)
      qed (use bad in simp_all)
    qed (use ok2 in simp_all)
  qed (use ok1 in simp_all)
  have c4: "run = (Inr (vm_name, ''Failed to create snapshot''),
                   write_detailed_log
                     [''Failed to create snapshot for VM: '' @ vm_name,
                      ''Error: '' @ errors_of (fst s4)] (snd s4))"
    if ok1: "exited_zero (fst s1)" and ok2: "exited_zero (fst s2)"
      and out2: "output_of (fst s2) \<noteq> []" and ok3: "exited_zero (fst s3)"
      and bad: "exited_nonzero (fst s4)"
  proof (cases "fst s1" rule: stage_result_cases)
    case one: (succeeds out1 err1)
    show ?thesis
    proof (cases "fst s2" rule: stage_result_cases)
      case two: (succeeds out2 err2)
      show ?thesis
      proof (cases "fst s3" rule: stage_result_cases)
        case three: (succeeds out3 err3)
        show ?thesis
        proof (cases "fst s4" rule: stage_result_cases)
          case (fails out err rc)
          then show ?thesis
            using len assms(2) r1 r2 r3 r4 one two three out2
            by (simp add: run_def process_vm_def Let_def)
        qed (use bad in simp_all)
      qed (use ok3 in simp_all)
    qed (use ok2 in simp_all)
  qed (use ok1 in simp_all)
  have c5: "run = (Inr (vm_name, snapshot_name_of chg_number vm_name timestamp),
                   write_detailed_log
                     [''Snapshot created: '' @ snapshot_name_of chg_number vm_name timestamp,
                      ''Warning: Could not parse snapshot creation output as JSON. Raw output:'',
                      output_of (fst s4),
                      ''Snapshot created successfully for VM: '' @ vm_name] (snd s4))"
    if ok1: "exited_zero (fst s1)" and ok2: "exited_zero (fst s2)"
      and out2: "output_of (fst s2) \<noteq> []" and ok3: "exited_zero (fst s3)"
      and ok4: "exited_zero (fst s4)" and nojson: "isl (json_loads E (output_of (fst s4)))"
  proof (cases "fst s1" rule: stage_result_cases)
    case one: (succeeds out1 err1)
    show ?thesis
    proof (cases "fst s2" rule: stage_result_cases)
      case two: (succeeds out2 err2)
      show ?thesis
      proof (cases "fst s3" rule: stage_result_cases)
        case three: (succeeds out3 err3)
        show ?thesis
        proof (cases "fst s4" rule: stage_result_cases)
          case four: (succeeds out4 err4)
          from nojson four obtain msg where "json_loads E out4 = Inl msg"
            by (cases "json_loads E out4") simp_all
          then show ?thesis
            using len assms(2) r1 r2 r3 r4 one two three four out2
            by (simp add: run_def process_vm_def Let_def record_snapshot_def
                  write_detailed_log_def)
        qed (use ok4 in simp_all)
      qed (use ok3 in simp_all)
    qed (use ok2 in simp_all)
  qed (use ok1 in simp_all)
  show ?thesis
    unfolding Let_def
    using c1 c2 c3 c4 c5
    unfolding s1_def s2_def s3_def s4_def run_def
    by blast
qed


text \<open>
  Two runs of one VM. On the tool that prints \<^verbatim>\<open>disk1\<close> all four commands succeed and
  the output of the last is not JSON: the result is the snapshot name. On the tool
  that prints nothing the disk id comes back empty: the result names that stage.
\<close>

theorem process_vm_stages_witness:
  "2 < length (split_on CHR ''/'' vm_a) \<and> split_on CHR ''/'' vm_a ! 2 \<noteq> []
   \<and> isl (json_loads vm_env
            (output_of (fst (create_stage vm_env ''20240102030405'' vm_a ''vm1'' ''CHG1'' []))))
   \<and> fst (process_vm vm_env ''20240102030405'' vm_a ''vm1'' ''CHG1'' [])
       = Inr (''vm1'', ''RH_CHG1_vm1_20240102030405'')
   \<and> output_of (fst (disk_stage calm_env vm_a ''vm1'' [])) = []
   \<and> fst (process_vm calm_env ''20240102030405'' vm_a ''vm1'' ''CHG1'' [])
       = Inr (''vm1'', ''Failed to get disk ID'')"
proof -
  have len: "2 < length (split_on CHR ''/'' vm_a)" by code_simp
  have sub: "split_on CHR ''/'' vm_a ! 2 \<noteq> []" by code_simp
  have ok: "exited_zero (fst (subscription_stage vm_env vm_a ''vm1'' []))"
    "exited_zero (fst (disk_stage vm_env vm_a ''vm1'' []))"
    "output_of (fst (disk_stage vm_env vm_a ''vm1'' [])) \<noteq> []"
    "exited_zero (fst (group_stage vm_env vm_a ''vm1'' []))"
    "exited_zero (fst (create_stage vm_env ''20240102030405'' vm_a ''vm1'' ''CHG1'' []))"
    by code_simp+
  have nojson: "isl (json_loads vm_env
            (output_of (fst (create_stage vm_env ''20240102030405'' vm_a ''vm1'' ''CHG1'' []))))"
    by code_simp
  have name: "snapshot_name_of ''CHG1'' ''vm1'' ''20240102030405'' = ''RH_CHG1_vm1_20240102030405''"
    by (simp add: snapshot_name_of_def)
  have calm: "exited_zero (fst (subscription_stage calm_env vm_a ''vm1'' []))"
    "exited_zero (fst (disk_stage calm_env vm_a ''vm1'' []))"
    "output_of (fst (disk_stage calm_env vm_a ''vm1'' [])) = []"
    by code_simp+
  from process_vm_stages[OF len sub, of vm_env "''vm1''" "[]" "''20240102030405''" "''CHG1''"]
    ok nojson name
  have r1: "fst (process_vm vm_env ''20240102030405'' vm_a ''vm1'' ''CHG1'' [])
       = Inr (''vm1'', ''RH_CHG1_vm1_20240102030405'')"
    unfolding Let_def by simp
  from process_vm_stages[OF len sub, of calm_env "''vm1''" "[]" "''20240102030405''" "''CHG1''"]
    calm
  have r2: "fst (process_vm calm_env ''20240102030405'' vm_a ''vm1'' ''CHG1'' [])
       = Inr (''vm1'', ''Failed to get disk ID'')"
    unfolding Let_def by simp
  from len sub nojson r1 calm(3) r2 show ?thesis by blast
qed


subsection \<open>Snapshot names\<close>

lemma is_digit_digit_char [simp]: "is_digit (digit_char n)"
proof -
  have "n mod 10 < 10" by simp
  then have "48 + n mod 10 < 256" by linarith
  then show ?thesis by (simp add: is_digit_def digit_char_def)
qed










end
